theory Spec2Isabelle
  imports Complex_Main "HOL-Library.Word" "HOL-Library.Monad_Syntax"
begin

unbundle bit_operations_syntax

section \<open>Machine types and memory\<close>

text \<open>
  The firmware runs on an ESP8266: \<open>uint8_t\<close> is an 8-bit word and
  \<open>unsigned long\<close> (the type of \<open>millis()\<close>) a 32-bit word, both with
  wrap-around arithmetic.
\<close>

type_synonym u8 = "8 word"
type_synonym u32 = "32 word"

text \<open>
  A byte buffer is a list of bytes. Reading or writing outside the buffer is undefined
  behaviour in C++; here it is the value \<open>None\<close>, so that a result \<open>Some \<dots>\<close>
  says that every access was inside its buffer.
\<close>

definition rd :: "u8 list \<Rightarrow> nat \<Rightarrow> u8 option" where
  "rd p i = (if i < length p then Some (p ! i) else None)"

definition wr :: "u8 list \<Rightarrow> nat \<Rightarrow> u8 \<Rightarrow> u8 list option" where
  "wr p i v = (if i < length p then Some (p[i := v]) else None)"

text \<open>\<open>memcpy(dst + d, src + s, n)\<close>\<close>

definition memcpy :: "u8 list \<Rightarrow> nat \<Rightarrow> u8 list \<Rightarrow> nat \<Rightarrow> nat \<Rightarrow> u8 list option" where
  "memcpy dst d src s n =
     (if d + n \<le> length dst \<and> s + n \<le> length src
      then Some (take d dst @ take n (drop s src) @ drop (d + n) dst)
      else None)"

section \<open>crypto.cpp: DER encoding of a raw ECDSA signature\<close>

text \<open>
  The loop \<open>while (start < 31 && p[start] == 0) start++;\<close> of
  \<open>encodeSignatureToDER\<close>, where \<open>p\<close> is \<open>raw_sig + base\<close>. The bound is
  tested before the byte is read, as \<open>&&\<close> does.
\<close>

function skip_zeros :: "u8 list \<Rightarrow> nat \<Rightarrow> nat \<Rightarrow> nat option" where
  "skip_zeros raw base start =
     (if start < 31
      then (if base + start < length raw
            then (if raw ! (base + start) = 0
                  then skip_zeros raw base (start + 1)
                  else Some start)
            else None)
      else Some start)"
  by pat_completeness auto
termination
  by (relation "measure (\<lambda>(raw, base, start). 31 - start)") auto

declare skip_zeros.simps [simp del]

text \<open>\<open>der_sig[idx++] = v\<close>\<close>

definition put :: "u8 \<Rightarrow> u8 list \<times> nat \<Rightarrow> (u8 list \<times> nat) option" where
  "put v = (\<lambda>(der, idx). do { der' \<leftarrow> wr der idx v; Some (der', idx + 1) })"

text \<open>\<open>memcpy(der_sig + idx, p + start, 32 - start); idx += 32 - start;\<close>\<close>

definition put_bytes :: "u8 list \<Rightarrow> nat \<Rightarrow> nat \<Rightarrow> u8 list \<times> nat \<Rightarrow> (u8 list \<times> nat) option" where
  "put_bytes src s n = (\<lambda>(der, idx). do { der' \<leftarrow> memcpy der idx src s n; Some (der', idx + n) })"

text \<open>
  \<open>encodeSignatureToDER(raw_sig, der_sig)\<close>: the result is the buffer after the call
  and the returned length. \<open>r\<close> is \<open>raw_sig\<close> and \<open>s\<close> is \<open>raw_sig + 32\<close>. The
  C++ counters are \<open>int\<close>; they stay between 0 and 72, so they are natural numbers
  here. A length is stored into a byte by truncation, which is \<open>of_nat\<close>.
\<close>

definition encodeSignatureToDER :: "u8 list \<Rightarrow> u8 list \<Rightarrow> (u8 list \<times> nat) option" where
  "encodeSignatureToDER raw_sig der_sig = do {
     r_start \<leftarrow> skip_zeros raw_sig 0 0;
     s_start \<leftarrow> skip_zeros raw_sig 32 0;
     let r_len = 32 - r_start;
     let s_len = 32 - s_start;
     r_first \<leftarrow> rd raw_sig (0 + r_start);
     s_first \<leftarrow> rd raw_sig (32 + s_start);
     let r_pad = (r_first AND 0x80 \<noteq> 0);
     let s_pad = (s_first AND 0x80 \<noteq> 0);
     let r_len = (if r_pad then r_len + 1 else r_len);
     let s_len = (if s_pad then s_len + 1 else s_len);
     let inner_len = 2 + r_len + 2 + s_len;
     st \<leftarrow> put 0x30 (der_sig, 0);
     st \<leftarrow> put (of_nat inner_len) st;
     st \<leftarrow> put 0x02 st;
     st \<leftarrow> put (of_nat r_len) st;
     st \<leftarrow> (if r_pad then put 0x00 st else Some st);
     st \<leftarrow> put_bytes raw_sig (0 + r_start) (32 - r_start) st;
     st \<leftarrow> put 0x02 st;
     st \<leftarrow> put (of_nat s_len) st;
     st \<leftarrow> (if s_pad then put 0x00 st else Some st);
     st \<leftarrow> put_bytes raw_sig (32 + s_start) (32 - s_start) st;
     Some st
   }"


section \<open>crypto.cpp: Base64 encoding\<close>

definition base64_chars :: string where
  "base64_chars = ''ABCDEFGHIJKLMNOPQRSTUVWXYZabcdefghijklmnopqrstuvwxyz0123456789+/''"

text \<open>
  The four assignments to \<open>char_array_4\<close> from \<open>char_array_3\<close>. C++ computes the
  shifts and sums in \<open>int\<close> and stores the result into a \<open>uint8_t\<close>; every
  intermediate value is below 64, so nothing is lost by computing on bytes.
\<close>

definition char_array_4 :: "u8 list \<Rightarrow> u8 list" where
  "char_array_4 a3 =
     [drop_bit 2 (a3 ! 0 AND 0xfc),
      push_bit 4 (a3 ! 0 AND 0x03) + drop_bit 4 (a3 ! 1 AND 0xf0),
      push_bit 2 (a3 ! 1 AND 0x0f) + drop_bit 6 (a3 ! 2 AND 0xc0),
      a3 ! 2 AND 0x3f]"

text \<open>\<open>encoded += base64_chars[v]\<close> for each \<open>v\<close> of a list of table indices.\<close>

definition base64_emit :: "u8 list \<Rightarrow> string" where
  "base64_emit vs = map (\<lambda>v. base64_chars ! unat v) vs"

text \<open>
  The loop \<open>while (length--)\<close> of \<open>base64Encode\<close>, one input byte per step. The
  loop state is the fill count \<open>i\<close>, the array \<open>char_array_3\<close> and the string built
  so far.
\<close>

fun base64_loop :: "u8 list \<Rightarrow> nat \<Rightarrow> u8 list \<Rightarrow> string \<Rightarrow> nat \<times> u8 list \<times> string" where
  "base64_loop [] i a3 enc = (i, a3, enc)"
| "base64_loop (d # data) i a3 enc =
     (let a3 = a3[i := d]; i = i + 1 in
      if i = 3 then base64_loop data 0 a3 (enc @ base64_emit (char_array_4 a3))
      else base64_loop data i a3 enc)"

text \<open>
  The part of \<open>base64Encode\<close> after the loop: the unused entries of
  \<open>char_array_3\<close> are zeroed, the first \<open>i + 1\<close> table indices are emitted (the
  fourth is not computed on this path and not used), then \<open>3 - i\<close> padding characters.
\<close>

definition base64_tail :: "nat \<times> u8 list \<times> string \<Rightarrow> string" where
  "base64_tail = (\<lambda>(i, a3, enc).
     if i \<noteq> 0 then
       (let a3 = fold (\<lambda>j a. a[j := 0]) [i..<3] a3;
            enc = enc @ base64_emit (take (i + 1) (char_array_4 a3))
        in enc @ replicate (3 - i) (CHR ''=''))
     else enc)"

text \<open>
  \<open>base64Encode(data, length)\<close>, with \<open>data\<close> the \<open>length\<close> bytes passed in.
  \<open>char_array_3\<close> is an uninitialised local array: each entry is written before it is
  read, and it starts as zeros here.
\<close>

definition base64Encode :: "u8 list \<Rightarrow> string" where
  "base64Encode data = base64_tail (base64_loop data 0 [0, 0, 0] [])"

text \<open>
  \<open>signMessage\<close> from the point where the hash has been signed: \<open>sig\<close> is what
  \<open>uECC_sign\<close> left in \<open>signature[64]\<close>, or \<open>None\<close> when it returned 0. The
  SHA-256 and ECDSA primitives are external libraries. The result is \<open>None\<close> only if a
  buffer access was out of bounds.
\<close>

definition signMessage :: "bool \<Rightarrow> u8 list option \<Rightarrow> string option" where
  "signMessage cryptoReady sig =
     (if \<not> cryptoReady then Some []
      else case sig of
        None \<Rightarrow> Some []
      | Some signature \<Rightarrow> do {
          (der_signature, der_len) \<leftarrow> encodeSignatureToDER signature (replicate 72 0);
          Some (base64Encode (take der_len der_signature))
        })"

section \<open>ESP8266_P256/config.h and ESP8266_C3DS_sensor/config.h\<close>

definition HEARTBEAT_INTERVAL :: u32 where "HEARTBEAT_INTERVAL = 20000"
definition ALERT_INTERVAL :: u32 where "ALERT_INTERVAL = 10000"
definition DETECTION_THRESHOLD_CM :: real where "DETECTION_THRESHOLD_CM = 25.0"
definition DETECTION_HYSTERESIS_CM :: real where "DETECTION_HYSTERESIS_CM = 2.0"
definition CONSECUTIVE_READINGS_REQUIRED :: int where "CONSECUTIVE_READINGS_REQUIRED = 2"
definition DEBOUNCE_DELAY :: u32 where "DEBOUNCE_DELAY = 50"
definition MIN_PRESS_INTERVAL :: u32 where "MIN_PRESS_INTERVAL = 2000"

text \<open>
  The Arduino pin levels, \<open>0x0\<close> and \<open>0x1\<close> in \<open>Arduino.h\<close>. The button pulls
  the pin low when pressed.
\<close>

definition LOW :: int where "LOW = 0"
definition HIGH :: int where "HIGH = 1"

section \<open>ESP8266_P256/hardware.cpp: ultrasonic detection with hysteresis\<close>

text \<open>
  The file's static variables, with \<open>consecutiveOutOfRange\<close>, the static local of
  \<open>updateDetectionStateMachine\<close>. A distance is a \<open>float\<close> that is never NaN
  (\<open>measureDistance\<close> returns \<open>-1.0\<close> or a product of finite positive numbers), and
  the code only compares and stores distances; such comparisons agree with those of the
  real numbers the floats stand for, so a distance is a real number here. The two counters
  are C++ \<open>int\<close>; \<open>consecutiveOutOfRange\<close> stays below 3, and
  \<open>consecutiveValidReadings\<close> grows only while an object stays in range, by one per
  poll, and is reset before its value is used again, so they are integers here.
\<close>

record hw_state =
  lastSensorPoll :: u32
  currentDistance :: real
  previousDistance :: real
  consecutiveValidReadings :: int
  detectionActive :: bool
  firstDetectionTime :: u32
  firstDetectionTimestamp :: string
  lastAlertTime :: u32
  ledState :: bool
  consecutiveOutOfRange :: int

definition hw_init :: hw_state where
  "hw_init = \<lparr> lastSensorPoll = 0, currentDistance = 0.0, previousDistance = 0.0,
               consecutiveValidReadings = 0, detectionActive = False,
               firstDetectionTime = 0, firstDetectionTimestamp = [], lastAlertTime = 0,
               ledState = False, consecutiveOutOfRange = 0 \<rparr>"

text \<open>
  What one call of \<open>pollSensor\<close> reads from outside: the value returned by
  \<open>measureDistance()\<close> (\<open>-1.0\<close> for a timeout or a distance outside 2..400 cm), the
  value of \<open>millis()\<close> at the start of the poll, and the values of \<open>millis()\<close> and
  \<open>getCurrentTimestamp()\<close> read by \<open>transitionToDetecting\<close>.
\<close>

record poll_input =
  measured_cm :: real
  millis_at_poll :: u32
  millis_at_transition :: u32
  timestamp_at_transition :: string

definition isDistanceInDetectionRange :: "hw_state \<Rightarrow> real \<Rightarrow> bool" where
  "isDistanceInDetectionRange st distance =
     (if detectionActive st
      then distance \<le> DETECTION_THRESHOLD_CM + DETECTION_HYSTERESIS_CM
      else distance \<le> DETECTION_THRESHOLD_CM)"

definition transitionToDetecting :: "poll_input \<Rightarrow> real \<Rightarrow> hw_state \<Rightarrow> hw_state" where
  "transitionToDetecting inp distance st =
     st\<lparr> detectionActive := True,
         firstDetectionTime := millis_at_transition inp,
         firstDetectionTimestamp := timestamp_at_transition inp,
         lastAlertTime := 0,
         consecutiveValidReadings := 0 \<rparr>"

definition setStatusLED :: "bool \<Rightarrow> hw_state \<Rightarrow> hw_state" where
  "setStatusLED state st = st\<lparr> ledState := state \<rparr>"

definition transitionToIdle :: "hw_state \<Rightarrow> hw_state" where
  "transitionToIdle st = setStatusLED False (st\<lparr> detectionActive := False \<rparr>)"

definition updateDetectionStateMachine :: "poll_input \<Rightarrow> real \<Rightarrow> bool \<Rightarrow> hw_state \<Rightarrow> hw_state" where
  "updateDetectionStateMachine inp distance readingInRange st =
     (if \<not> detectionActive st \<and> consecutiveValidReadings st \<ge> CONSECUTIVE_READINGS_REQUIRED
      then transitionToDetecting inp distance st
      else if detectionActive st \<and> \<not> readingInRange \<and> consecutiveValidReadings st = 0
      then (let st = st\<lparr> consecutiveOutOfRange := consecutiveOutOfRange st + 1 \<rparr> in
            if consecutiveOutOfRange st \<ge> CONSECUTIVE_READINGS_REQUIRED
            then (transitionToIdle st)\<lparr> consecutiveOutOfRange := 0 \<rparr>
            else st)
      else st\<lparr> consecutiveOutOfRange := 0 \<rparr>)"

definition pollSensor :: "poll_input \<Rightarrow> hw_state \<Rightarrow> bool \<times> hw_state" where
  "pollSensor inp st =
     (let st = st\<lparr> lastSensorPoll := millis_at_poll inp \<rparr>;
          distance = measured_cm inp
      in if distance < 0
         then (True, st\<lparr> consecutiveValidReadings := 0 \<rparr>)
         else
           (let st = st\<lparr> previousDistance := currentDistance st \<rparr>;
                st = st\<lparr> currentDistance := distance \<rparr>;
                readingInRange = isDistanceInDetectionRange st distance;
                st = (if readingInRange
                      then st\<lparr> consecutiveValidReadings := consecutiveValidReadings st + 1 \<rparr>
                      else st\<lparr> consecutiveValidReadings := 0 \<rparr>)
            in (True, updateDetectionStateMachine inp distance readingInRange st)))"

definition isObjectDetected :: "hw_state \<Rightarrow> bool" where
  "isObjectDetected st = detectionActive st"

text \<open>\<open>isAlertDue()\<close> and \<open>markAlertSent()\<close>; \<open>now\<close> is the value of \<open>millis()\<close>.\<close>

definition isAlertDue :: "u32 \<Rightarrow> hw_state \<Rightarrow> bool" where
  "isAlertDue now st =
     (if \<not> detectionActive st then False
      else (let timeSinceLastAlert = now - lastAlertTime st
            in timeSinceLastAlert \<ge> ALERT_INTERVAL))"

definition markAlertSent :: "u32 \<Rightarrow> hw_state \<Rightarrow> hw_state" where
  "markAlertSent now st = st\<lparr> lastAlertTime := now \<rparr>"

text \<open>The sensor polled once per input, oldest first.\<close>

fun poll_all :: "hw_state \<Rightarrow> poll_input list \<Rightarrow> hw_state" where
  "poll_all st [] = st"
| "poll_all st (inp # inps) = poll_all (snd (pollSensor inp st)) inps"

section \<open>ESP8266_C3DS_sensor/hardware.cpp: debounced button\<close>

record button_state =
  lastButtonState :: int
  buttonState :: int
  lastDebounceTime :: u32
  lastPressTime :: u32

definition button_init :: button_state where
  "button_init = \<lparr> lastButtonState = HIGH, buttonState = HIGH,
                   lastDebounceTime = 0, lastPressTime = 0 \<rparr>"

text \<open>
  What one call of \<open>checkButtonPress\<close> reads from outside: the pin level returned by
  \<open>digitalRead\<close>, and the three values of \<open>millis()\<close>, in the order the function
  reads them (when the level changed, at the debounce test, at the interval test).
\<close>

record button_input =
  pin_level :: int
  millis_at_change :: u32
  millis_at_debounce :: u32
  millis_at_press :: u32

definition checkButtonPress :: "button_input \<Rightarrow> button_state \<Rightarrow> bool \<times> button_state" where
  "checkButtonPress inp st =
     (let reading = pin_level inp;
          st = (if reading \<noteq> lastButtonState st
                then st\<lparr> lastDebounceTime := millis_at_change inp \<rparr> else st)
      in if millis_at_debounce inp - lastDebounceTime st > DEBOUNCE_DELAY
         then
           (if reading \<noteq> buttonState st
            then
              (let st = st\<lparr> buttonState := reading \<rparr> in
               if buttonState st = LOW
               then
                 (let currentTime = millis_at_press inp in
                  if currentTime - lastPressTime st \<ge> MIN_PRESS_INTERVAL
                  then (True, st\<lparr> lastPressTime := currentTime \<rparr>)
                  else (False, st\<lparr> lastButtonState := reading \<rparr>))
               else (False, st\<lparr> lastButtonState := reading \<rparr>))
            else (False, st\<lparr> lastButtonState := reading \<rparr>))
         else (False, st\<lparr> lastButtonState := reading \<rparr>))"

text \<open>The button checked once per input, oldest first; the results are collected.\<close>

fun check_all :: "button_state \<Rightarrow> button_input list \<Rightarrow> bool list \<times> button_state" where
  "check_all st [] = ([], st)"
| "check_all st (inp # inps) =
     (let (e, st') = checkButtonPress inp st; (es, st'') = check_all st' inps
      in (e # es, st''))"

section \<open>messaging.cpp of both device templates\<close>

text \<open>
  The two templates have a \<open>messaging.cpp\<close> each, with the same function names. The
  functions of \<open>ESP8266_sensor/ESP8266_P256\<close> (ultrasonic sensor) carry the suffix
  \<open>_P256\<close> here and those of \<open>ESP8266_C3DS_sensor\<close> (button) the suffix
  \<open>_C3DS\<close>; a function that is the same in both has no suffix.
\<close>

datatype MessageType = HEARTBEAT | ALERT

subsection \<open>createMessagePayload\<close>

text \<open>
  The JSON document that \<open>createMessagePayload\<close> builds, before the ArduinoJson
  library serialises it. An object keeps its members in insertion order, and
  \<open>obj[key] = value\<close> replaces the value of a member that exists and appends a new
  member otherwise.
\<close>

datatype json = JString string | JInt int | JFloat real | JObject "(string \<times> json) list"

fun json_set :: "string \<Rightarrow> json \<Rightarrow> (string \<times> json) list \<Rightarrow> (string \<times> json) list" where
  "json_set k v [] = [(k, v)]"
| "json_set k v ((k', v') # kvs) =
     (if k = k' then (k, v) # kvs else (k', v') # json_set k v kvs)"

text \<open>
  What \<open>createMessagePayload\<close> reads from outside: the configured \<open>DEVICE_ID\<close>, and
  the values returned by \<open>getCurrentTimestamp()\<close>, \<open>getUptimeSeconds()\<close>,
  \<open>getWiFiRSSI()\<close> and \<open>ESP.getFreeHeap()\<close>.
\<close>

record payload_input =
  DEVICE_ID :: string
  current_timestamp :: string
  uptime_seconds :: int
  wifi_rssi :: int
  free_heap :: int

text \<open>
  The nested object is created under \<open>"data"\<close> first and filled through the reference
  \<open>createNestedObject\<close> returns; no other member is added to the document afterwards,
  so the document is the same when the filled object is stored under \<open>"data"\<close> at once.
\<close>

definition createMessagePayload_P256 ::
    "payload_input \<Rightarrow> MessageType \<Rightarrow> real \<Rightarrow> int \<Rightarrow> string \<Rightarrow> (string \<times> json) list" where
  "createMessagePayload_P256 inp type distance durationSeconds firstDetectedTimestamp =
     (let doc = [];
          doc = json_set ''device_id'' (JString (DEVICE_ID inp)) doc;
          doc = json_set ''timestamp'' (JString (current_timestamp inp)) doc
      in case type of
        HEARTBEAT \<Rightarrow>
          (let doc = json_set ''message_type'' (JString ''heartbeat'') doc;
               status = [];
               status = json_set ''status'' (JString ''online'') status;
               status = json_set ''uptime'' (JInt (uptime_seconds inp)) status;
               status = json_set ''wifi_rssi'' (JInt (wifi_rssi inp)) status;
               status = json_set ''free_memory'' (JInt (free_heap inp)) status
           in json_set ''data'' (JObject status) doc)
      | ALERT \<Rightarrow>
          (let doc = json_set ''message_type'' (JString ''alert'') doc;
               detection = [];
               detection = json_set ''event'' (JString ''ultrasonic_detection'') detection;
               detection = json_set ''sensor_type'' (JString ''HC-SR04'') detection;
               detection = json_set ''detected_distance_cm'' (JFloat distance) detection;
               detection = json_set ''detection_duration_seconds'' (JInt durationSeconds) detection;
               detection = json_set ''first_detected_at'' (JString firstDetectedTimestamp) detection;
               detection = json_set ''confidence'' (JFloat 1.0) detection
           in json_set ''data'' (JObject detection) doc))"

definition createMessagePayload_C3DS :: "payload_input \<Rightarrow> MessageType \<Rightarrow> (string \<times> json) list" where
  "createMessagePayload_C3DS inp type =
     (let doc = [];
          doc = json_set ''device_id'' (JString (DEVICE_ID inp)) doc;
          doc = json_set ''timestamp'' (JString (current_timestamp inp)) doc
      in case type of
        HEARTBEAT \<Rightarrow>
          (let doc = json_set ''message_type'' (JString ''heartbeat'') doc;
               status = [];
               status = json_set ''status'' (JString ''online'') status;
               status = json_set ''uptime'' (JInt (uptime_seconds inp)) status;
               status = json_set ''wifi_rssi'' (JInt (wifi_rssi inp)) status;
               status = json_set ''free_memory'' (JInt (free_heap inp)) status
           in json_set ''data'' (JObject status) doc)
      | ALERT \<Rightarrow>
          (let doc = json_set ''message_type'' (JString ''alert'') doc;
               detection = [];
               detection = json_set ''event'' (JString ''button_press'') detection;
               detection = json_set ''sensor_type'' (JString ''manual'') detection;
               detection = json_set ''confidence'' (JFloat 1.0) detection
           in json_set ''data'' (JObject detection) doc))"

text \<open>The member names of a document, and of the object stored under \<open>"data"\<close>, in order.\<close>

definition member_names :: "(string \<times> json) list \<Rightarrow> string list" where
  "member_names doc = map fst doc"

definition data_member_names :: "(string \<times> json) list \<Rightarrow> string list" where
  "data_member_names doc =
     (case map_of doc ''data'' of Some (JObject kvs) \<Rightarrow> map fst kvs | _ \<Rightarrow> [])"

subsection \<open>sendHTTPRequest\<close>

text \<open>
  The status LED patterns a request shows: \<open>showSuccessPattern()\<close> and
  \<open>showErrorPattern(errorCode)\<close>, in the order of the calls.
\<close>

datatype led_pattern = SuccessPattern | ErrorPattern int

definition handleHTTPSuccess :: "int \<Rightarrow> bool \<times> led_pattern list" where
  "handleHTTPSuccess httpCode =
     (if httpCode = 200 \<or> httpCode = 201 then (True, [SuccessPattern]) else (False, []))"

definition handleHTTPClientError :: "int \<Rightarrow> led_pattern list" where
  "handleHTTPClientError httpCode =
     (if httpCode = 400 then [ErrorPattern 3]
      else if httpCode = 401 \<or> httpCode = 403 then [ErrorPattern 4]
      else [ErrorPattern 6])"

definition handleHTTPServerError :: "int \<Rightarrow> led_pattern list" where
  "handleHTTPServerError httpCode = [ErrorPattern 5]"

definition handleNetworkError :: "int \<Rightarrow> led_pattern list" where
  "handleNetworkError errorCode = [ErrorPattern 10]"

text \<open>
  \<open>sendHTTPRequest\<close> as a function of what the HTTP client reports: whether
  \<open>http.begin\<close> succeeded, and the value \<open>http.POST\<close> returned (an HTTP status, or
  a negative transport error). The result is the returned flag and the patterns shown.
\<close>

definition sendHTTPRequest_P256 :: "bool \<Rightarrow> int \<Rightarrow> bool \<times> led_pattern list" where
  "sendHTTPRequest_P256 begin_ok httpResponseCode =
     (if \<not> begin_ok then (False, [])
      else if httpResponseCode > 0 then
        (if httpResponseCode \<ge> 200 \<and> httpResponseCode < 300
         then handleHTTPSuccess httpResponseCode
         else if httpResponseCode \<ge> 400 \<and> httpResponseCode < 500
         then (False, handleHTTPClientError httpResponseCode)
         else if httpResponseCode \<ge> 500
         then (False, handleHTTPServerError httpResponseCode)
         else (False, [ErrorPattern 6]))
      else (False, handleNetworkError httpResponseCode))"

definition sendHTTPRequest_C3DS :: "bool \<Rightarrow> int \<Rightarrow> bool \<times> led_pattern list" where
  "sendHTTPRequest_C3DS begin_ok httpResponseCode =
     (if \<not> begin_ok then (False, [])
      else if httpResponseCode > 0 then
        (if httpResponseCode = 200 \<or> httpResponseCode = 201
         then (True, [SuccessPattern])
         else if httpResponseCode = 400
         then (False, [ErrorPattern 3])
         else if httpResponseCode = 401 \<or> httpResponseCode = 403
         then (False, [ErrorPattern 4])
         else if httpResponseCode \<ge> 500
         then (False, [ErrorPattern 5])
         else (False, [ErrorPattern 6]))
      else (False, [ErrorPattern 10]))"

subsection \<open>sendHeartbeat and isHeartbeatDue\<close>

record msg_state =
  lastHeartbeatTime :: u32
  messagingReady :: bool

text \<open>
  What one call of \<open>sendHeartbeat\<close> meets outside: the answer of
  \<open>isWiFiConnected()\<close>, the string \<open>signMessage(payload)\<close> returns (empty when
  signing failed), the outcome of the HTTP request, and the value of \<open>millis()\<close> read
  after the request.
\<close>

record send_input =
  wifi_connected :: bool
  signature_b64 :: string
  http_begin_ok :: bool
  http_response :: int
  millis_after_send :: u32

text \<open>
  \<open>sendHeartbeat\<close> is the same text in both templates, apart from the
  \<open>sendHTTPRequest\<close> it calls, which is the parameter \<open>send\<close>.
\<close>

definition sendHeartbeat ::
    "(bool \<Rightarrow> int \<Rightarrow> bool \<times> led_pattern list) \<Rightarrow> send_input \<Rightarrow> msg_state
       \<Rightarrow> bool \<times> led_pattern list \<times> msg_state" where
  "sendHeartbeat send inp st =
     (if \<not> messagingReady st then (False, [], st)
      else if \<not> wifi_connected inp then (False, [], st)
      else
        (let signature = signature_b64 inp in
         if length signature = 0 then (False, [], st)
         else
           (let (success, shown) = send (http_begin_ok inp) (http_response inp);
                st = st\<lparr> lastHeartbeatTime := millis_after_send inp \<rparr>
            in (success, shown, st))))"

definition sendHeartbeat_P256 :: "send_input \<Rightarrow> msg_state \<Rightarrow> bool \<times> led_pattern list \<times> msg_state" where
  "sendHeartbeat_P256 = sendHeartbeat sendHTTPRequest_P256"

definition sendHeartbeat_C3DS :: "send_input \<Rightarrow> msg_state \<Rightarrow> bool \<times> led_pattern list \<times> msg_state" where
  "sendHeartbeat_C3DS = sendHeartbeat sendHTTPRequest_C3DS"

definition isHeartbeatDue :: "u32 \<Rightarrow> msg_state \<Rightarrow> bool" where
  "isHeartbeatDue now st = (now - lastHeartbeatTime st \<ge> HEARTBEAT_INTERVAL)"

section \<open>Reference definitions, in the words of the specification\<close>

subsection \<open>DER encoding of a signature\<close>

text \<open>
  An integer of the signature: the leading \<open>0x00\<close> bytes are stripped, never the
  final byte; a \<open>0x00\<close> byte is prepended when the first remaining byte has its high
  bit set; the result follows the INTEGER tag \<open>0x02\<close> and a length byte. The two
  integers are wrapped in a SEQUENCE, tag \<open>0x30\<close>, whose length byte is
  \<open>2 + len(r_enc) + 2 + len(s_enc)\<close>.
\<close>

definition strip_leading_zeros :: "u8 list \<Rightarrow> u8 list" where
  "strip_leading_zeros bs = dropWhile (\<lambda>b. b = 0) (butlast bs) @ [last bs]"

definition der_integer_body :: "u8 list \<Rightarrow> u8 list" where
  "der_integer_body bs =
     (let v = strip_leading_zeros bs in (if bit (hd v) 7 then [0x00] else []) @ v)"

definition der_integer :: "u8 list \<Rightarrow> u8 list" where
  "der_integer bs = [0x02, of_nat (length (der_integer_body bs))] @ der_integer_body bs"

definition der_encoding :: "u8 list \<Rightarrow> u8 list \<Rightarrow> u8 list" where
  "der_encoding r s =
     [0x30, of_nat (2 + length (der_integer_body r) + 2 + length (der_integer_body s))]
       @ der_integer r @ der_integer s"

subsection \<open>Hysteresis state machine\<close>

text \<open>
  A valid in-range reading while idle: the measurement succeeded (it is not negative) and
  is at most the entry threshold. \<open>consecutive_in_range\<close> counts the consecutive such
  readings at the end of a history.
\<close>

definition valid_in_range :: "poll_input \<Rightarrow> bool" where
  "valid_in_range inp = (0 \<le> measured_cm inp \<and> measured_cm inp \<le> DETECTION_THRESHOLD_CM)"

definition consecutive_in_range :: "poll_input list \<Rightarrow> nat" where
  "consecutive_in_range inps = length (takeWhile valid_in_range (rev inps))"

text \<open>A poll input with one clock value and a fixed timestamp, for concrete runs.\<close>

definition reading_at :: "real \<Rightarrow> u32 \<Rightarrow> poll_input" where
  "reading_at d t =
     \<lparr>measured_cm = d, millis_at_poll = t, millis_at_transition = t,
      timestamp_at_transition = ''1970-01-01T00:00:00Z''\<rparr>"

subsection \<open>Debounced button\<close>

text \<open>
  A call of \<open>checkButtonPress\<close> commits a press when the pin is low, the stable state
  is still high, and the level has been stable for longer than the debounce delay.
\<close>

definition commits_press :: "button_input \<Rightarrow> button_state \<Rightarrow> bool" where
  "commits_press inp st =
     (pin_level inp = LOW \<and> buttonState st = HIGH \<and>
      millis_at_debounce inp
        - (if pin_level inp \<noteq> lastButtonState st then millis_at_change inp else lastDebounceTime st)
        > DEBOUNCE_DELAY)"

text \<open>A button input with one clock value, for concrete runs.\<close>

definition level_at :: "int \<Rightarrow> u32 \<Rightarrow> button_input" where
  "level_at level t =
     \<lparr>pin_level = level, millis_at_change = t, millis_at_debounce = t, millis_at_press = t\<rparr>"

subsection \<open>Base64\<close>

text \<open>
  A reference decoder after RFC 4648: the value of a character in the alphabet of its
  Table 1 (\<open>A\<close>-\<open>Z\<close> are 0-25, \<open>a\<close>-\<open>z\<close> are 26-51, \<open>0\<close>-\<open>9\<close> are
  52-61, \<open>+\<close> is 62, \<open>/\<close> is 63); the three bytes of a 24-bit group made of four
  6-bit values; and the decoding of a string four characters at a time, where only the
  final four may end in one or two \<open>=\<close>, which stand for one or two missing bytes.
\<close>

definition rfc4648_value :: "char \<Rightarrow> nat option" where
  "rfc4648_value ch =
     (let n = (of_char ch :: nat) in
      if 65 \<le> n \<and> n \<le> 90 then Some (n - 65)
      else if 97 \<le> n \<and> n \<le> 122 then Some (n - 71)
      else if 48 \<le> n \<and> n \<le> 57 then Some (n + 4)
      else if ch = CHR ''+'' then Some 62
      else if ch = CHR ''/'' then Some 63
      else None)"

definition rfc4648_group :: "nat \<Rightarrow> nat \<Rightarrow> nat \<Rightarrow> nat \<Rightarrow> u8 list" where
  "rfc4648_group x y z w =
     (let n = ((x * 64 + y) * 64 + z) * 64 + w
      in [of_nat (n div 65536), of_nat (n div 256), of_nat n])"

fun rfc4648_decode :: "string \<Rightarrow> u8 list option" where
  "rfc4648_decode [] = Some []"
| "rfc4648_decode [c0, c1, c2, c3] =
     (if c2 = CHR ''='' \<and> c3 = CHR ''='' then
        do { x \<leftarrow> rfc4648_value c0; y \<leftarrow> rfc4648_value c1;
             Some (take 1 (rfc4648_group x y 0 0)) }
      else if c3 = CHR ''='' then
        do { x \<leftarrow> rfc4648_value c0; y \<leftarrow> rfc4648_value c1; z \<leftarrow> rfc4648_value c2;
             Some (take 2 (rfc4648_group x y z 0)) }
      else
        do { x \<leftarrow> rfc4648_value c0; y \<leftarrow> rfc4648_value c1; z \<leftarrow> rfc4648_value c2;
             w \<leftarrow> rfc4648_value c3;
             Some (rfc4648_group x y z w) })"
| "rfc4648_decode (c0 # c1 # c2 # c3 # rest) =
     do { x \<leftarrow> rfc4648_value c0; y \<leftarrow> rfc4648_value c1; z \<leftarrow> rfc4648_value c2;
          w \<leftarrow> rfc4648_value c3;
          bytes \<leftarrow> rfc4648_decode rest;
          Some (rfc4648_group x y z w @ bytes) }"
| "rfc4648_decode _ = None"

text \<open>
  The output of \<open>base64Encode\<close> as a function of the input taken three bytes at a
  time; the loop is shown below to compute it.
\<close>

fun base64_groups :: "u8 list \<Rightarrow> string" where
  "base64_groups (a # b # c # rest) = base64_emit (char_array_4 [a, b, c]) @ base64_groups rest"
| "base64_groups [a, b] = base64_emit (take 3 (char_array_4 [a, b, 0])) @ ''=''"
| "base64_groups [a] = base64_emit (take 2 (char_array_4 [a, 0, 0])) @ ''==''"
| "base64_groups [] = []"

subsection \<open>Output buffer\<close>

text \<open>
  The state of the output buffer while \<open>encodeSignatureToDER\<close> writes it: the buffer
  has \<open>cap\<close> bytes, and the bytes before the write index are \<open>out\<close>.
\<close>

definition written :: "u8 list \<times> nat \<Rightarrow> nat \<Rightarrow> u8 list \<Rightarrow> bool" where
  "written st cap out = (length (fst st) = cap \<and> snd st = length out \<and> take (snd st) (fst st) = out)"


section \<open>Verification: DER encoding\<close>

lemma skip_zeros_count:
  "base + 32 \<le> length raw \<Longrightarrow> start \<le> 31 \<Longrightarrow>
   skip_zeros raw base start =
     Some (start + length (takeWhile (\<lambda>b. b = 0) (take (31 - start) (drop (base + start) raw))))"
proof (induction raw base start rule: skip_zeros.induct)
  case (1 raw base start)
  show ?case
  proof (cases "start < 31")
    case False
    with "1.prems" show ?thesis by (subst skip_zeros.simps) simp
  next
    case True
    then have inb: "base + start < length raw" using "1.prems" by simp
    from True obtain k where k: "31 - start = Suc k" by (cases "31 - start") auto
    then have k': "31 - (start + 1) = k" "30 - start = k" by simp_all
    have dr: "drop (base + start) raw = raw ! (base + start) # drop (base + (start + 1)) raw"
      using inb by (simp add: Cons_nth_drop_Suc)
    show ?thesis
    proof (cases "raw ! (base + start) = 0")
      case z: True
      have "skip_zeros raw base start = skip_zeros raw base (start + 1)"
        using True inb z by (subst skip_zeros.simps) simp
      also have "\<dots> = Some (start + 1 + length (takeWhile (\<lambda>b. b = 0) (take (31 - (start + 1)) (drop (base + (start + 1)) raw))))"
        using "1.IH" [OF True inb z] "1.prems" True by simp
      finally show ?thesis using z by (simp add: k k' dr)
    next
      case nz: False
      have "skip_zeros raw base start = Some start"
        using True inb nz by (subst skip_zeros.simps) simp
      then show ?thesis using nz by (simp add: k dr)
    qed
  qed
qed

lemma high_bit_iff: "(b AND 0x80 \<noteq> 0) = bit (b :: u8) 7"
  using and_exp_eq_0_iff_not_bit [of b 7] by simp

lemma strip_as_drop:
  assumes "length bs = 32"
  shows "drop (length (takeWhile (\<lambda>b. b = 0) (take 31 bs))) bs = strip_leading_zeros bs"
proof -
  let ?k = "length (takeWhile (\<lambda>b. b = 0) (take 31 bs))"
  have ne: "bs \<noteq> []" using assms by auto
  have bl: "butlast bs = take 31 bs" using assms by (simp add: butlast_conv_take)
  have k: "?k \<le> 31" using length_takeWhile_le [of "\<lambda>b. b = 0" "take 31 bs"] assms by simp
  have "bs = take 31 bs @ [last bs]" using ne bl append_butlast_last_id [of bs] by simp
  then have "drop ?k bs = drop ?k (take 31 bs @ [last bs])" by simp
  also have "\<dots> = drop ?k (take 31 bs) @ [last bs]" using k assms by simp
  also have "drop ?k (take 31 bs) = dropWhile (\<lambda>b. b = 0) (take 31 bs)"
    by (simp add: dropWhile_eq_drop)
  finally show ?thesis by (simp add: strip_leading_zeros_def bl)
qed


lemma written_put:
  assumes "written st cap out" "length out < cap"
  shows "\<exists>st'. put v st = Some st' \<and> written st' cap (out @ [v])"
proof -
  obtain der idx where st: "st = (der, idx)" by (cases st)
  from assms st have "idx < length der" "take idx der = out" "length der = cap" "idx = length out"
    by (auto simp: written_def)
  then show ?thesis
    by (simp add: st put_def wr_def written_def take_Suc_conv_app_nth)
qed

lemma written_put_bytes:
  assumes "written st cap out" "length out + n \<le> cap" "s + n \<le> length src"
  shows "\<exists>st'. put_bytes src s n st = Some st' \<and> written st' cap (out @ take n (drop s src))"
proof -
  obtain der idx where st: "st = (der, idx)" by (cases st)
  from assms st have "idx + n \<le> length der" "take idx der = out" "length der = cap" "idx = length out"
    by (auto simp: written_def)
  then show ?thesis using assms(3)
    by (simp add: st put_bytes_def memcpy_def written_def)
qed

lemma bind_put:
  assumes "written st cap out" "length out < cap"
    and "\<And>st'. written st' cap (out @ [v]) \<Longrightarrow> \<exists>r. f st' = Some r \<and> Q r"
  shows "\<exists>r. Option.bind (put v st) f = Some r \<and> Q r"
  using written_put [OF assms(1,2), of v] assms(3) by auto

lemma bind_pad:
  assumes "written st cap out" "length out < cap"
    and "\<And>st'. written st' cap (out @ (if p then [0] else [])) \<Longrightarrow> \<exists>r. f st' = Some r \<and> Q r"
  shows "\<exists>r. Option.bind (if p then put 0 st else Some st) f = Some r \<and> Q r"
  using written_put [OF assms(1,2), of 0] assms(1,3) by (cases p) auto

lemma bind_put_bytes:
  assumes "written st cap out" "length out + n \<le> cap" "s + n \<le> length src"
    and "\<And>st'. written st' cap (out @ take n (drop s src)) \<Longrightarrow> \<exists>r. f st' = Some r \<and> Q r"
  shows "\<exists>r. Option.bind (put_bytes src s n st) f = Some r \<and> Q r"
  using written_put_bytes [OF assms(1,2,3)] assms(4) by auto

lemma written_done:
  assumes "written st cap out" "out = out'"
  shows "\<exists>r. Some st = Some r \<and> written r cap out'"
  using assms by simp

lemma encode_refines:
  assumes raw: "length raw_sig = 64" and der: "length der_sig = 72"
  shows "\<exists>st. encodeSignatureToDER raw_sig der_sig = Some st \<and>
           written st 72 (der_encoding (take 32 raw_sig) (drop 32 raw_sig))"
proof -
  define kr where "kr = length (takeWhile (\<lambda>b. b = 0) (take 31 raw_sig))"
  define ks where "ks = length (takeWhile (\<lambda>b. b = 0) (take 31 (drop 32 raw_sig)))"
  define rp where "rp \<longleftrightarrow> raw_sig ! kr AND 0x80 \<noteq> 0"
  define sp where "sp \<longleftrightarrow> raw_sig ! (32 + ks) AND 0x80 \<noteq> 0"
  have skr: "skip_zeros raw_sig 0 0 = Some kr"
    using skip_zeros_count [of 0 raw_sig 0] raw by (simp add: kr_def)
  have sks: "skip_zeros raw_sig 32 0 = Some ks"
    using skip_zeros_count [of 32 raw_sig 0] raw by (simp add: ks_def)
  have kr31: "kr \<le> 31"
    using length_takeWhile_le [of "\<lambda>b. b = 0" "take 31 raw_sig"] raw by (simp add: kr_def)
  have ks31: "ks \<le> 31"
    using length_takeWhile_le [of "\<lambda>b. b = 0" "take 31 (drop 32 raw_sig)"] raw
    by (simp add: ks_def)
  have sr: "strip_leading_zeros (take 32 raw_sig) = drop kr (take 32 raw_sig)"
    using strip_as_drop [of "take 32 raw_sig"] raw by (simp add: min_def kr_def)
  have ss: "strip_leading_zeros (drop 32 raw_sig) = drop ks (drop 32 raw_sig)"
    using strip_as_drop [of "drop 32 raw_sig"] raw by (simp add: ks_def)
  have bodyr: "take (32 - kr) (drop (0 + kr) raw_sig) = drop kr (take 32 raw_sig)"
    using kr31 by (simp add: drop_take)
  have bodys: "take (32 - ks) (drop (32 + ks) raw_sig) = drop ks (drop 32 raw_sig)"
    using raw by (simp add: add.commute)
  have hr: "bit (hd (drop kr (take 32 raw_sig))) 7 = rp"
    using kr31 raw by (simp add: hd_drop_conv_nth rp_def high_bit_iff)
  have hs: "bit (hd (drop ks (drop 32 raw_sig))) 7 = sp"
    using ks31 raw by (simp add: hd_drop_conv_nth add.commute sp_def high_bit_iff)
  have rdr: "rd raw_sig (0 + kr) = Some (raw_sig ! kr)"
    using kr31 raw by (simp add: rd_def)
  have rds: "rd raw_sig (32 + ks) = Some (raw_sig ! (32 + ks))"
    using ks31 raw by (simp add: rd_def)
  have w0: "written (der_sig, 0) 72 []" using der by (simp add: written_def)
  have ibr: "der_integer_body (take 32 raw_sig)
               = (if rp then [0] else []) @ take (32 - kr) (drop (0 + kr) raw_sig)"
    by (simp only: der_integer_body_def Let_def sr hr bodyr)
  have ibs: "der_integer_body (drop 32 raw_sig)
               = (if sp then [0] else []) @ take (32 - ks) (drop (32 + ks) raw_sig)"
    by (simp only: der_integer_body_def Let_def ss hs bodys)
  have lenr: "length (der_integer_body (take 32 raw_sig)) = (if rp then 32 - kr + 1 else 32 - kr)"
    unfolding ibr using kr31 raw by auto
  have lens: "length (der_integer_body (drop 32 raw_sig)) = (if sp then 32 - ks + 1 else 32 - ks)"
    unfolding ibs using ks31 raw by auto
  show ?thesis
    unfolding encodeSignatureToDER_def Let_def skr sks rdr rds bind.simps
      rp_def [symmetric] sp_def [symmetric]
    apply (insert kr31 ks31 raw)
    apply (rule bind_put [OF w0], simp)
    apply (rule bind_put, assumption, simp)
    apply (rule bind_put, assumption, simp)
    apply (rule bind_put, assumption, simp)
    apply (rule bind_pad, assumption, simp)
    apply (rule bind_put_bytes, assumption)
      apply (auto)[2]
    apply (rule bind_put, assumption)
     apply (auto)[1]
    apply (rule bind_put, assumption)
     apply (auto)[1]
    apply (rule bind_pad, assumption)
     apply (auto)[1]
    apply (rule bind_put_bytes, assumption)
      apply (auto)[2]
    apply (rule written_done, assumption)
    apply (simp only: der_encoding_def der_integer_def lenr lens)
    apply (simp only: ibr ibs)
    apply simp
    done
qed


lemma strip_length:
  "bs \<noteq> [] \<Longrightarrow> 1 \<le> length (strip_leading_zeros bs) \<and> length (strip_leading_zeros bs) \<le> length bs"
proof (cases bs rule: rev_cases)
  case Nil
  assume "bs \<noteq> []" with Nil show ?thesis by simp
next
  case (snoc xs x)
  with length_dropWhile_le [of "\<lambda>b. b = 0" xs] show ?thesis
    by (simp add: strip_leading_zeros_def)
qed

lemma body_length:
  assumes "length bs = 32"
  shows "1 \<le> length (der_integer_body bs) \<and> length (der_integer_body bs) \<le> 33"
proof -
  have "bs \<noteq> []" using assms by auto
  from strip_length [OF this] assms show ?thesis
    by (simp add: der_integer_body_def Let_def)
qed

lemma strip_nonzero_head:
  "bs \<noteq> [] \<Longrightarrow> hd bs \<noteq> 0 \<Longrightarrow> strip_leading_zeros bs = bs"
proof (cases bs rule: rev_cases)
  case Nil
  assume "bs \<noteq> []" with Nil show ?thesis by simp
next
  case (snoc xs x)
  assume "hd bs \<noteq> 0"
  with snoc show ?thesis
    by (cases xs) (simp_all add: strip_leading_zeros_def)
qed

lemma strip_all_zero:
  assumes "bs \<noteq> []" "set bs \<subseteq> {0}"
  shows "strip_leading_zeros bs = [0]"
proof -
  have "\<forall>b \<in> set (butlast bs). b = 0" using assms(2) in_set_butlastD by fastforce
  then have "dropWhile (\<lambda>b. b = 0) (butlast bs) = []" by simp
  moreover have "last bs = 0" using assms last_in_set by fastforce
  ultimately show ?thesis by (simp add: strip_leading_zeros_def)
qed

lemma body_high_bit:
  assumes "bs \<noteq> []" "bit (hd bs) 7"
  shows "der_integer_body bs = 0 # bs"
proof -
  have "hd bs \<noteq> 0" using assms(2) by auto
  from strip_nonzero_head [OF assms(1) this] assms(2) show ?thesis
    by (simp add: der_integer_body_def)
qed

lemma body_all_zero:
  assumes "bs \<noteq> []" "set bs \<subseteq> {0}"
  shows "der_integer_body bs = [0]"
  using strip_all_zero [OF assms] by (simp add: der_integer_body_def)

lemma der_encoding_length:
  "length (der_encoding r s) = 6 + length (der_integer_body r) + length (der_integer_body s)"
  by (simp add: der_encoding_def der_integer_def)


text \<open>
  Claim C1. For every 64-byte raw signature and 72-byte output buffer,
  \<open>encodeSignatureToDER\<close> returns the length of, and leaves at the start of the
  buffer, the DER encoding in the words of the specification: a SEQUENCE (tag \<open>0x30\<close>,
  one length byte equal to \<open>2 + len(r_enc) + 2 + len(s_enc)\<close>) of two INTEGERs (tag
  \<open>0x02\<close>, one length byte), each the 32 input bytes with the leading zero bytes
  stripped (never the final byte) and one zero byte prepended exactly when the high bit of
  the first remaining byte is set. The length bytes hold the lengths without truncation.
  When \<open>r[0]\<close> and \<open>s[0]\<close> both have the high bit set, the length is 72 and each
  integer is the zero byte followed by all 32 bytes; for the signature of 64 bytes
  \<open>0x01\<close> the length is 70.
\<close>

theorem encodeSignatureToDER_correct:
  assumes raw: "length raw_sig = 64" and der: "length der_sig = 72"
  shows "\<exists>der n. encodeSignatureToDER raw_sig der_sig = Some (der, n)
           \<and> n = length (der_encoding (take 32 raw_sig) (drop 32 raw_sig))
           \<and> take n der = der_encoding (take 32 raw_sig) (drop 32 raw_sig)
           \<and> 1 \<le> length (strip_leading_zeros (take 32 raw_sig))
           \<and> 1 \<le> length (strip_leading_zeros (drop 32 raw_sig))
           \<and> unat (der ! 1) = 2 + length (der_integer_body (take 32 raw_sig))
                                + 2 + length (der_integer_body (drop 32 raw_sig))
           \<and> unat (der ! 3) = length (der_integer_body (take 32 raw_sig))
           \<and> unat (der ! (5 + length (der_integer_body (take 32 raw_sig))))
                 = length (der_integer_body (drop 32 raw_sig))
           \<and> (bit (raw_sig ! 0) 7 \<and> bit (raw_sig ! 32) 7 \<longrightarrow>
                 n = 72 \<and> der_integer_body (take 32 raw_sig) = 0 # take 32 raw_sig
                        \<and> der_integer_body (drop 32 raw_sig) = 0 # drop 32 raw_sig)
           \<and> (raw_sig = replicate 64 1 \<longrightarrow> n = 70)"
proof -
  let ?r = "take 32 raw_sig" and ?s = "drop 32 raw_sig"
  let ?out = "der_encoding ?r ?s"
  let ?lr = "length (der_integer_body ?r)" and ?ls = "length (der_integer_body ?s)"
  from encode_refines [OF raw der] obtain der n
    where enc: "encodeSignatureToDER raw_sig der_sig = Some (der, n)"
      and w: "written (der, n) 72 ?out"
    by auto
  from w have n: "n = length ?out" and tk: "take n der = ?out" and ld: "length der = 72"
    by (auto simp: written_def)
  have lr: "length ?r = 32" and ls: "length ?s = 32" using raw by simp_all
  have ne: "?r \<noteq> []" "?s \<noteq> []" using raw by auto
  note br = body_length [OF lr] and bs = body_length [OF ls]
  have n6: "n = 6 + ?lr + ?ls" using n by (simp add: der_encoding_length)
  have nth_out: "der ! i = ?out ! i" if "i < n" for i
    using nth_take [OF that, of der] tk by simp
  have o1: "?out ! 1 = of_nat (2 + ?lr + 2 + ?ls)"
    by (simp add: der_encoding_def)
  have o3: "?out ! 3 = of_nat ?lr"
    by (simp add: der_encoding_def der_integer_def numeral_3_eq_3)
  have o5: "?out ! (5 + ?lr) = of_nat ?ls"
  proof -
    have "?out = ([0x30, of_nat (2 + ?lr + 2 + ?ls), 0x02, of_nat ?lr] @ der_integer_body ?r @ [0x02])
                   @ of_nat ?ls # der_integer_body ?s"
      by (simp add: der_encoding_def der_integer_def)
    moreover have "length ([0x30, of_nat (2 + ?lr + 2 + ?ls), 0x02, of_nat ?lr :: u8]
                     @ der_integer_body ?r @ [0x02]) = 5 + ?lr"
      by simp
    ultimately show ?thesis by (metis nth_append_length)
  qed
  have small: "unat (of_nat k :: u8) = k" if "k < 256" for k
    using that by (simp add: unat_of_nat)
  have d1: "der ! 1 = ?out ! 1" and d3: "der ! 3 = ?out ! 3"
    using nth_out [of 1] nth_out [of 3] n6 by simp_all
  have u1: "unat (der ! 1) = 2 + ?lr + 2 + ?ls"
    unfolding d1 o1 using br bs by (intro small) simp
  have u3: "unat (der ! 3) = ?lr"
    unfolding d3 o3 using br by (intro small) simp
  have u5: "unat (der ! (5 + ?lr)) = ?ls"
  proof -
    have "5 + ?lr < n" using n6 bs by simp
    from nth_out [OF this] have d5: "der ! (5 + ?lr) = of_nat ?ls" unfolding o5 .
    show ?thesis unfolding d5 using bs by (intro small) simp
  qed
  have hi: "n = 72 \<and> der_integer_body ?r = 0 # ?r \<and> der_integer_body ?s = 0 # ?s"
    if "bit (raw_sig ! 0) 7" "bit (raw_sig ! 32) 7"
  proof -
    have "raw_sig \<noteq> []" using raw by auto
    then have "hd ?r = raw_sig ! 0" "hd ?s = raw_sig ! 32"
      using raw by (simp_all add: hd_conv_nth hd_drop_conv_nth)
    with that have "bit (hd ?r) 7" "bit (hd ?s) 7" by simp_all
    with ne have "der_integer_body ?r = 0 # ?r" "der_integer_body ?s = 0 # ?s"
      by (simp_all add: body_high_bit)
    then show ?thesis using n6 lr ls by simp
  qed
  have ones: "n = 70" if "raw_sig = replicate 64 1"
  proof -
    have "?r = replicate 32 1" "?s = replicate 32 1" using that by simp_all
    moreover have "der_integer_body (replicate 32 (1 :: u8)) = replicate 32 1"
      using strip_nonzero_head [of "replicate 32 (1 :: u8)"]
      by (simp add: der_integer_body_def)
    ultimately show ?thesis using n6 by simp
  qed
  show ?thesis
    using enc n tk strip_length [OF ne(1)] strip_length [OF ne(2)] u1 u3 u5 hi ones by blast
qed

theorem encodeSignatureToDER_correct_witness:
  "map_option snd (encodeSignatureToDER (replicate 64 0x01) (replicate 72 0)) = Some 70
   \<and> map_option snd (encodeSignatureToDER (replicate 64 0x80) (replicate 72 0)) = Some 72"
  using encodeSignatureToDER_correct [of "replicate 64 0x01" "replicate 72 0"]
    encodeSignatureToDER_correct [of "replicate 64 0x80" "replicate 72 0"]
  by auto

text \<open>
  Claim C10. For every 64-byte input, also one whose \<open>r\<close> half or \<open>s\<close> half is all
  zero bytes, \<open>encodeSignatureToDER\<close> returns, every read is inside the 64 bytes and
  every write inside the 72-byte buffer (the result is \<open>Some\<close>), and the returned
  length is between 8 and 72. An all-zero half is encoded as the three bytes
  \<open>02 01 00\<close>: for \<open>r\<close> they follow the two-byte SEQUENCE header, for \<open>s\<close> they
  are the last three bytes of the encoding.
\<close>

theorem encodeSignatureToDER_total:
  assumes raw: "length raw_sig = 64" and der: "length der_sig = 72"
  shows "\<exists>der n. encodeSignatureToDER raw_sig der_sig = Some (der, n)
           \<and> length der = 72 \<and> 8 \<le> n \<and> n \<le> 72
           \<and> (set (take 32 raw_sig) \<subseteq> {0} \<longrightarrow> take 3 (drop 2 der) = [0x02, 0x01, 0x00])
           \<and> (set (drop 32 raw_sig) \<subseteq> {0} \<longrightarrow>
                 take 3 (drop (n - 3) der) = [0x02, 0x01, 0x00])"
proof -
  let ?r = "take 32 raw_sig" and ?s = "drop 32 raw_sig"
  let ?out = "der_encoding ?r ?s"
  from encode_refines [OF raw der] obtain der n
    where enc: "encodeSignatureToDER raw_sig der_sig = Some (der, n)"
      and w: "written (der, n) 72 ?out"
    by auto
  from w have n: "n = length ?out" and tk: "take n der = ?out" and ld: "length der = 72"
    by (auto simp: written_def)
  have lr: "length ?r = 32" and ls: "length ?s = 32" using raw by simp_all
  note br = body_length [OF lr] and bs = body_length [OF ls]
  have n8: "8 \<le> n" and n72: "n \<le> 72" using n br bs by (simp_all add: der_encoding_length)
  have ne: "?r \<noteq> []" "?s \<noteq> []" using raw by auto
  have zr: "take 3 (drop 2 der) = [0x02, 0x01, 0x00]" if "set ?r \<subseteq> {0}"
  proof -
    have "take 3 (drop 2 ?out) = [0x02, 0x01, 0x00]"
      using body_all_zero [OF ne(1) that] by (simp add: der_encoding_def der_integer_def)
    moreover have "take 3 (drop 2 (take n der)) = take 3 (drop 2 der)"
      using n8 by (simp add: drop_take min_def)
    ultimately show ?thesis using tk by simp
  qed
  have zs: "take 3 (drop (n - 3) der) = [0x02, 0x01, 0x00]" if "set ?s \<subseteq> {0}"
  proof -
    have "drop (length ?out - 3) ?out = [0x02, 0x01, 0x00]"
      using body_all_zero [OF ne(2) that] by (simp add: der_encoding_def der_integer_def)
    then have "drop (n - 3) (take n der) = [0x02, 0x01, 0x00]" using n tk by simp
    moreover have "drop (n - 3) (take n der) = take 3 (drop (n - 3) der)"
      using n8 by (simp add: drop_take)
    ultimately show ?thesis by simp
  qed
  show ?thesis using enc ld n8 n72 zr zs by blast
qed

theorem encodeSignatureToDER_total_witness:
  "\<exists>der n. encodeSignatureToDER (replicate 64 0) (replicate 72 0xff) = Some (der, n)
      \<and> 8 \<le> n \<and> n \<le> 72
      \<and> take 3 (drop 2 der) = [0x02, 0x01, 0x00]
      \<and> take 3 (drop (n - 3) der) = [0x02, 0x01, 0x00]"
  using encodeSignatureToDER_total [of "replicate 64 0" "replicate 72 0xff"]
  by auto

section \<open>Verification: detection with hysteresis\<close>

lemma poll_all_snoc: "poll_all st (inps @ [inp]) = snd (pollSensor inp (poll_all st inps))"
  by (induction inps arbitrary: st) simp_all

lemmas hw_defs = pollSensor_def updateDetectionStateMachine_def isDistanceInDetectionRange_def
  transitionToDetecting_def transitionToIdle_def setStatusLED_def
  DETECTION_THRESHOLD_CM_def DETECTION_HYSTERESIS_CM_def CONSECUTIVE_READINGS_REQUIRED_def

lemma consecutive_in_range_snoc:
  "consecutive_in_range (inps @ [inp]) =
     (if valid_in_range inp then Suc (consecutive_in_range inps) else 0)"
  by (simp add: consecutive_in_range_def)

lemma idle_counter:
  "\<not> detectionActive (poll_all hw_init inps) \<Longrightarrow>
     consecutiveValidReadings (poll_all hw_init inps) = int (consecutive_in_range inps)
     \<and> consecutiveValidReadings (poll_all hw_init inps) < CONSECUTIVE_READINGS_REQUIRED"
proof (induction inps rule: rev_induct)
  case Nil
  show ?case by (simp add: hw_init_def consecutive_in_range_def CONSECUTIVE_READINGS_REQUIRED_def)
next
  case (snoc inp inps)
  let ?st = "poll_all hw_init inps"
  show ?case
  proof (cases "detectionActive ?st")
    case True
    with snoc.prems show ?thesis
      by (auto simp: poll_all_snoc consecutive_in_range_snoc valid_in_range_def hw_defs Let_def
               split: if_splits)
  next
    case False
    from snoc.IH [OF False] snoc.prems False show ?thesis
      by (auto simp: poll_all_snoc consecutive_in_range_snoc valid_in_range_def hw_defs Let_def
               split: if_splits)
  qed
qed

lemma idle_step:
  assumes "\<not> detectionActive st"
  shows "detectionActive (snd (pollSensor inp st)) \<longleftrightarrow>
           valid_in_range inp \<and> CONSECUTIVE_READINGS_REQUIRED \<le> consecutiveValidReadings st + 1"
  using assms by (auto simp: valid_in_range_def hw_defs Let_def)

text \<open>
  Claim C6. From any idle state, with entry threshold 25 cm and two consecutive readings
  required, the readings 26, 24, 24 leave the machine idle after the first and the second
  reading and put it in Detecting after the third, whatever the clock shows. In general,
  when the machine is idle after a history of polls since boot, the next poll enters
  Detecting exactly when it makes the number of consecutive valid in-range readings at
  the end of the history reach \<open>CONSECUTIVE_READINGS_REQUIRED\<close>.
\<close>

theorem idle_to_detecting:
  "(\<not> detectionActive st \<and> measured_cm a = 26 \<and> measured_cm b = 24 \<and> measured_cm c = 24 \<longrightarrow>
      \<not> detectionActive (poll_all st [a])
      \<and> \<not> detectionActive (poll_all st [a, b])
      \<and> detectionActive (poll_all st [a, b, c]))
   \<and> (\<not> detectionActive (poll_all hw_init inps) \<longrightarrow>
        (detectionActive (poll_all hw_init (inps @ [inp])) \<longleftrightarrow>
           CONSECUTIVE_READINGS_REQUIRED \<le> int (consecutive_in_range (inps @ [inp]))))"
proof (intro conjI impI)
  assume m: "\<not> detectionActive st \<and> measured_cm a = 26 \<and> measured_cm b = 24 \<and> measured_cm c = 24"
  then show "\<not> detectionActive (poll_all st [a])"
    by (simp add: hw_defs Let_def)
  from m show "\<not> detectionActive (poll_all st [a, b])"
    by (simp add: hw_defs Let_def)
  from m show "detectionActive (poll_all st [a, b, c])"
    by (simp add: hw_defs Let_def)
next
  assume idle: "\<not> detectionActive (poll_all hw_init inps)"
  from idle_counter [OF idle] idle_step [OF idle, of inp]
  show "detectionActive (poll_all hw_init (inps @ [inp])) \<longleftrightarrow>
          CONSECUTIVE_READINGS_REQUIRED \<le> int (consecutive_in_range (inps @ [inp]))"
    by (auto simp: poll_all_snoc consecutive_in_range_snoc CONSECUTIVE_READINGS_REQUIRED_def)
qed

theorem idle_to_detecting_witness:
  "\<not> detectionActive (poll_all hw_init [reading_at 26 500])
   \<and> \<not> detectionActive (poll_all hw_init [reading_at 26 500, reading_at 24 1000])
   \<and> detectionActive (poll_all hw_init [reading_at 26 500, reading_at 24 1000, reading_at 24 1500])
   \<and> consecutive_in_range [reading_at 26 500, reading_at 24 1000, reading_at 24 1500] = 2"
  using idle_to_detecting
    [of hw_init "reading_at 26 500" "reading_at 24 1000" "reading_at 24 1500"
        "[reading_at 26 500, reading_at 24 1000]" "reading_at 24 1500"]
  by (simp add: reading_at_def hw_init_def consecutive_in_range_def valid_in_range_def
        DETECTION_THRESHOLD_CM_def)

lemma invalid_reading:
  assumes "measured_cm inp < 0"
  shows "snd (pollSensor inp st) = st\<lparr> lastSensorPoll := millis_at_poll inp, consecutiveValidReadings := 0 \<rparr>"
  using assms by (simp add: pollSensor_def Let_def)

lemma out_of_range_reading:
  assumes "detectionActive st"
    and "DETECTION_THRESHOLD_CM + DETECTION_HYSTERESIS_CM < measured_cm inp"
  shows "detectionActive (snd (pollSensor inp st)) \<longleftrightarrow>
           consecutiveOutOfRange st + 1 < CONSECUTIVE_READINGS_REQUIRED"
    and "detectionActive (snd (pollSensor inp st)) \<Longrightarrow>
           consecutiveOutOfRange (snd (pollSensor inp st)) = consecutiveOutOfRange st + 1"
  using assms by (auto simp: hw_defs Let_def)

lemma idle_out_of_range_counter:
  "\<not> detectionActive (poll_all hw_init inps) \<Longrightarrow>
     consecutiveOutOfRange (poll_all hw_init inps) = 0"
proof (induction inps rule: rev_induct)
  case Nil
  show ?case by (simp add: hw_init_def)
next
  case (snoc inp inps)
  show ?case
  proof (cases "detectionActive (poll_all hw_init inps)")
    case True
    with snoc.prems show ?thesis
      by (auto simp: poll_all_snoc hw_defs Let_def split: if_splits)
  next
    case False
    from snoc.IH [OF False] snoc.prems False show ?thesis
      by (auto simp: poll_all_snoc hw_defs Let_def split: if_splits)
  qed
qed

lemma entry_out_of_range_counter:
  assumes "\<not> detectionActive (poll_all hw_init inps)"
    and "detectionActive (poll_all hw_init (inps @ [inp]))"
  shows "consecutiveOutOfRange (poll_all hw_init (inps @ [inp])) = 0"
  using idle_out_of_range_counter [OF assms(1)] assms
  by (auto simp: poll_all_snoc hw_defs Let_def split: if_splits)

text \<open>
  Claim C7. From a Detecting state whose out-of-range counter is 0 (as it is on entry, by
  \<open>entry_out_of_range_counter\<close>, and after every in-range reading), one valid reading above the exit threshold of 27 cm keeps
  the machine in Detecting and a second one makes it idle. An invalid reading (negative
  measurement) sets the in-range counter to 0 and leaves the out-of-range counter and the
  detection state as they are, in any state; so out-of-range, invalid, out-of-range also
  ends idle, after the third poll and not before.
\<close>

theorem detecting_to_idle:
  assumes "detectionActive st" and "consecutiveOutOfRange st = 0"
    and "DETECTION_THRESHOLD_CM + DETECTION_HYSTERESIS_CM < measured_cm a"
    and "DETECTION_THRESHOLD_CM + DETECTION_HYSTERESIS_CM < measured_cm c"
    and "measured_cm b < 0"
  shows "detectionActive (poll_all st [a]) \<and> \<not> detectionActive (poll_all st [a, c])
       \<and> consecutiveValidReadings (poll_all st' [b]) = 0
       \<and> consecutiveOutOfRange (poll_all st' [b]) = consecutiveOutOfRange st'
       \<and> detectionActive (poll_all st' [b]) = detectionActive st'
       \<and> detectionActive (poll_all st [a, b])
       \<and> \<not> detectionActive (poll_all st [a, b, c])"
proof -
  let ?s1 = "snd (pollSensor a st)"
  have a1: "detectionActive ?s1" and o1: "consecutiveOutOfRange ?s1 = 1"
    using out_of_range_reading [OF assms(1,3)] assms(2)
    by (simp_all add: CONSECUTIVE_READINGS_REQUIRED_def)
  have c2: "\<not> detectionActive (snd (pollSensor c ?s1))"
    using out_of_range_reading(1) [OF a1 assms(4)] o1
    by (simp add: CONSECUTIVE_READINGS_REQUIRED_def)
  let ?s2 = "snd (pollSensor b ?s1)"
  have a2: "detectionActive ?s2" and o2: "consecutiveOutOfRange ?s2 = 1"
    using a1 o1 by (simp_all add: invalid_reading [OF assms(5)])
  have c3: "\<not> detectionActive (snd (pollSensor c ?s2))"
    using out_of_range_reading(1) [OF a2 assms(4)] o2
    by (simp add: CONSECUTIVE_READINGS_REQUIRED_def)
  show ?thesis
    using a1 c2 a2 c3 by (simp add: invalid_reading [OF assms(5)])
qed

theorem detecting_to_idle_witness:
  "detectionActive (poll_all hw_init [reading_at 24 500, reading_at 24 1000])
   \<and> detectionActive
        (poll_all (poll_all hw_init [reading_at 24 500, reading_at 24 1000]) [reading_at 30 1500])
   \<and> \<not> detectionActive
        (poll_all (poll_all hw_init [reading_at 24 500, reading_at 24 1000])
           [reading_at 30 1500, reading_at 30 2500])
   \<and> detectionActive
        (poll_all (poll_all hw_init [reading_at 24 500, reading_at 24 1000])
           [reading_at 30 1500, reading_at (-1) 2000])
   \<and> \<not> detectionActive
        (poll_all (poll_all hw_init [reading_at 24 500, reading_at 24 1000])
           [reading_at 30 1500, reading_at (-1) 2000, reading_at 30 2500])"
proof -
  let ?st = "poll_all hw_init [reading_at 24 500, reading_at 24 1000]"
  have active: "detectionActive ?st" and zero: "consecutiveOutOfRange ?st = 0"
    by (simp_all add: reading_at_def hw_init_def hw_defs Let_def)
  have far: "DETECTION_THRESHOLD_CM + DETECTION_HYSTERESIS_CM < measured_cm (reading_at 30 1500)"
    "DETECTION_THRESHOLD_CM + DETECTION_HYSTERESIS_CM < measured_cm (reading_at 30 2500)"
    by (simp_all add: reading_at_def DETECTION_THRESHOLD_CM_def DETECTION_HYSTERESIS_CM_def)
  have invalid: "measured_cm (reading_at (-1) 2000) < 0"
    by (simp add: reading_at_def)
  from detecting_to_idle [OF active zero far invalid] active show ?thesis by blast
qed

lemma isAlertDue_after_transition:
  "isAlertDue now (transitionToDetecting inp d st) = (ALERT_INTERVAL \<le> now)"
  by (simp add: isAlertDue_def transitionToDetecting_def)

text \<open>
  Claim C4 says that after the transition to Detecting the alert is due at once, for every
  value of the clock. \<open>transitionToDetecting\<close> sets \<open>lastAlertTime\<close> to 0, so the
  alert is due only once \<open>millis()\<close> has reached \<open>ALERT_INTERVAL\<close>: an object detected
  one second after boot is not reported before the tenth second.
\<close>

theorem alert_not_due_after_early_detection:
  "detectionActive (poll_all hw_init [reading_at 24 500, reading_at 24 1000])
   \<and> lastAlertTime (poll_all hw_init [reading_at 24 500, reading_at 24 1000]) = 0
   \<and> \<not> isAlertDue 1000 (poll_all hw_init [reading_at 24 500, reading_at 24 1000])
   \<and> \<not> isAlertDue 9999 (poll_all hw_init [reading_at 24 500, reading_at 24 1000])
   \<and> isAlertDue 10000 (poll_all hw_init [reading_at 24 500, reading_at 24 1000])"
  by (simp add: reading_at_def hw_init_def hw_defs Let_def isAlertDue_def ALERT_INTERVAL_def)

section \<open>Verification: debounced button\<close>

lemma press_commit:
  assumes "commits_press inp st"
  shows "fst (checkButtonPress inp st) \<longleftrightarrow> millis_at_press inp - lastPressTime st \<ge> MIN_PRESS_INTERVAL"
    and "buttonState (snd (checkButtonPress inp st)) = LOW"
    and "lastPressTime (snd (checkButtonPress inp st)) =
           (if millis_at_press inp - lastPressTime st \<ge> MIN_PRESS_INTERVAL
            then millis_at_press inp else lastPressTime st)"
  using assms by (auto simp: commits_press_def checkButtonPress_def Let_def LOW_def HIGH_def)

lemma no_event_lastPressTime:
  "\<not> fst (checkButtonPress inp st) \<Longrightarrow>
     lastPressTime (snd (checkButtonPress inp st)) = lastPressTime st"
  by (auto simp: checkButtonPress_def Let_def split: if_splits)

lemma quiet_lastPressTime:
  "check_all st inps = (es, st') \<Longrightarrow> True \<notin> set es \<Longrightarrow> lastPressTime st' = lastPressTime st"
proof (induction inps arbitrary: st es st')
  case Nil
  then show ?case by simp
next
  case (Cons inp inps)
  obtain e s1 where c: "checkButtonPress inp st = (e, s1)" by (cases "checkButtonPress inp st")
  obtain es1 s2 where r: "check_all s1 inps = (es1, s2)" by (cases "check_all s1 inps")
  from Cons.prems c r have es: "es = e # es1" and s2: "st' = s2" by simp_all
  with Cons.prems(2) have "\<not> e" "True \<notin> set es1" by auto
  from Cons.IH [OF r this(2)] no_event_lastPressTime [of inp st] c \<open>\<not> e\<close> s2
  show ?case by simp
qed

text \<open>
  Claim C8 says that two debounced presses 2001 ms apart both produce an event.
  \<open>lastPressTime\<close> starts at 0, so a press committed before \<open>millis()\<close> has
  reached \<open>MIN_PRESS_INTERVAL\<close> is ignored: after boot, of presses committed at 1051 ms
  and 3052 ms only the second produces an event.
\<close>

theorem press_after_boot_ignored:
  "commits_press (level_at LOW 1051) (snd (check_all button_init [level_at LOW 1000]))
   \<and> fst (check_all button_init
          [level_at LOW 1000, level_at LOW 1051, level_at HIGH 1200, level_at HIGH 1251,
           level_at LOW 3000, level_at LOW 3052])
       = [False, False, False, False, False, True]"
  by (simp add: level_at_def button_init_def checkButtonPress_def commits_press_def Let_def
        LOW_def HIGH_def DEBOUNCE_DELAY_def MIN_PRESS_INTERVAL_def)

text \<open>
  Claim C8, amended. A debounced press that is committed at least \<open>MIN_PRESS_INTERVAL\<close>
  after the last accepted one (\<open>lastPressTime\<close> starts at 0, the time of boot)
  produces an event. If no other press is accepted in between, a second debounced press
  committed 2001 ms after the first produces an event too, and one committed 1999 ms
  after the first produces none: the stable state becomes low, but the press is ignored.
  The clock is the 32-bit \<open>millis()\<close> and may wrap around between the presses.
\<close>

theorem button_rate_limit:
  assumes first: "commits_press p1 st"
    and eligible: "millis_at_press p1 - lastPressTime st \<ge> MIN_PRESS_INTERVAL"
    and between: "check_all (snd (checkButtonPress p1 st)) mid = (es, st2)" "True \<notin> set es"
    and second: "commits_press p2 st2"
  shows "fst (checkButtonPress p1 st)
       \<and> (millis_at_press p2 = millis_at_press p1 + 2001 \<longrightarrow> fst (checkButtonPress p2 st2))
       \<and> (millis_at_press p2 = millis_at_press p1 + 1999 \<longrightarrow>
            \<not> fst (checkButtonPress p2 st2) \<and> buttonState (snd (checkButtonPress p2 st2)) = LOW)"
proof -
  have e1: "fst (checkButtonPress p1 st)"
    using press_commit(1) [OF first] eligible by simp
  have "lastPressTime (snd (checkButtonPress p1 st)) = millis_at_press p1"
    using press_commit(3) [OF first] eligible by simp
  with quiet_lastPressTime [OF between] have l2: "lastPressTime st2 = millis_at_press p1" by simp
  have iff2: "fst (checkButtonPress p2 st2) \<longleftrightarrow> millis_at_press p2 - millis_at_press p1 \<ge> MIN_PRESS_INTERVAL"
    using press_commit(1) [OF second] l2 by simp
  show ?thesis
    using e1 iff2 press_commit(2) [OF second] by (auto simp: MIN_PRESS_INTERVAL_def)
qed

theorem button_rate_limit_witness:
  "fst (checkButtonPress (level_at LOW 5051) (snd (check_all button_init [level_at LOW 5000])))
   \<and> fst (checkButtonPress (level_at LOW 7052)
          (snd (check_all button_init
             [level_at LOW 5000, level_at LOW 5051, level_at HIGH 5200, level_at HIGH 5251,
              level_at LOW 7000])))
   \<and> \<not> fst (checkButtonPress (level_at LOW 7050)
          (snd (check_all button_init
             [level_at LOW 5000, level_at LOW 5051, level_at HIGH 5200, level_at HIGH 5251,
              level_at LOW 6990])))"
proof -
  let ?st = "snd (check_all button_init [level_at LOW 5000])"
  let ?p1 = "level_at LOW 5051"
  let ?midA = "[level_at HIGH 5200, level_at HIGH 5251, level_at LOW 7000]"
  let ?midB = "[level_at HIGH 5200, level_at HIGH 5251, level_at LOW 6990]"
  let ?stA = "snd (check_all button_init
     [level_at LOW 5000, level_at LOW 5051, level_at HIGH 5200, level_at HIGH 5251, level_at LOW 7000])"
  let ?stB = "snd (check_all button_init
     [level_at LOW 5000, level_at LOW 5051, level_at HIGH 5200, level_at HIGH 5251, level_at LOW 6990])"
  note ev = level_at_def button_init_def checkButtonPress_def commits_press_def Let_def
    LOW_def HIGH_def DEBOUNCE_DELAY_def MIN_PRESS_INTERVAL_def
  have first: "commits_press ?p1 ?st"
    and eligible: "millis_at_press ?p1 - lastPressTime ?st \<ge> MIN_PRESS_INTERVAL"
    by (simp_all add: ev)
  have betweenA: "check_all (snd (checkButtonPress ?p1 ?st)) ?midA = ([False, False, False], ?stA)"
    and betweenB: "check_all (snd (checkButtonPress ?p1 ?st)) ?midB = ([False, False, False], ?stB)"
    by (simp_all add: ev)
  have quiet: "True \<notin> set [False, False, False]" by simp
  have secondA: "commits_press (level_at LOW 7052) ?stA"
    and secondB: "commits_press (level_at LOW 7050) ?stB"
    by (simp_all add: ev)
  have tA: "millis_at_press (level_at LOW 7052) = millis_at_press ?p1 + 2001"
    and tB: "millis_at_press (level_at LOW 7050) = millis_at_press ?p1 + 1999"
    by (simp_all add: level_at_def)
  from button_rate_limit [OF first eligible betweenA quiet secondA]
    button_rate_limit [OF first eligible betweenB quiet secondB] tA tB
  show ?thesis by blast
qed

section \<open>Verification: messaging\<close>

text \<open>
  Claim C2 says that every status code from 200 to 299 is classified as success. Both
  templates accept 200 and 201 only: at 204 the request returns false, and the button
  template shows the pattern of an unexpected response.
\<close>

theorem http_204_not_success:
  "sendHTTPRequest_P256 True 204 = (False, [])
   \<and> sendHTTPRequest_C3DS True 204 = (False, [ErrorPattern 6])"
  by (simp add: sendHTTPRequest_P256_def sendHTTPRequest_C3DS_def handleHTTPSuccess_def)

text \<open>
  Claim C2, amended. \<open>sendHTTPRequest\<close> returns true and shows the success pattern for
  the status codes 200 and 201, in both templates; it returns true for no other status
  code or transport outcome; in the button template every other 2xx code is shown as an
  unexpected response (error pattern 6).
\<close>

theorem http_success_codes:
  "(httpResponseCode = 200 \<or> httpResponseCode = 201 \<longrightarrow>
      sendHTTPRequest_P256 True httpResponseCode = (True, [SuccessPattern])
      \<and> sendHTTPRequest_C3DS True httpResponseCode = (True, [SuccessPattern]))
   \<and> (fst (sendHTTPRequest_P256 begin_ok httpResponseCode)
        \<longleftrightarrow> begin_ok \<and> (httpResponseCode = 200 \<or> httpResponseCode = 201))
   \<and> (fst (sendHTTPRequest_C3DS begin_ok httpResponseCode)
        \<longleftrightarrow> begin_ok \<and> (httpResponseCode = 200 \<or> httpResponseCode = 201))
   \<and> (202 \<le> httpResponseCode \<and> httpResponseCode \<le> 299 \<longrightarrow>
        sendHTTPRequest_C3DS True httpResponseCode = (False, [ErrorPattern 6]))"
  by (auto simp: sendHTTPRequest_P256_def sendHTTPRequest_C3DS_def handleHTTPSuccess_def)

theorem http_success_codes_witness:
  "sendHTTPRequest_P256 True 201 = (True, [SuccessPattern])
   \<and> sendHTTPRequest_C3DS True 201 = (True, [SuccessPattern])
   \<and> \<not> fst (sendHTTPRequest_P256 True 204)
   \<and> sendHTTPRequest_C3DS True 204 = (False, [ErrorPattern 6])"
  using http_success_codes [of 201 True] http_success_codes [of 204 True]
  by simp

lemma sendHeartbeat_marks_when_sent:
  assumes "messagingReady st" "wifi_connected inp" "signature_b64 inp \<noteq> []"
  shows "lastHeartbeatTime (snd (snd (sendHeartbeat send inp st))) = millis_after_send inp"
    and "\<not> isHeartbeatDue (millis_after_send inp) (snd (snd (sendHeartbeat send inp st)))"
  using assms
  by (simp_all add: sendHeartbeat_def isHeartbeatDue_def HEARTBEAT_INTERVAL_def Let_def
        split: prod.splits)

lemma sendHeartbeat_unchanged_when_skipped:
  assumes "\<not> messagingReady st \<or> \<not> wifi_connected inp \<or> signature_b64 inp = []"
  shows "sendHeartbeat send inp st = (False, [], st)"
  using assms by (auto simp: sendHeartbeat_def)

text \<open>
  Claim C3 says that every call of \<open>sendHeartbeat\<close> advances the heartbeat timer, also
  when signing fails. When \<open>uECC_sign\<close> fails, \<open>signMessage\<close> returns the empty
  string and \<open>sendHeartbeat\<close> returns before the timer is set: the heartbeat stays
  due. A request that the server answers with status 500 does set the timer.
\<close>

theorem heartbeat_timer_stalls_on_signing_failure:
  "signMessage True None = Some []
   \<and> sendHeartbeat_P256
        \<lparr>wifi_connected = True, signature_b64 = [], http_begin_ok = True, http_response = 200,
         millis_after_send = 20000\<rparr>
        \<lparr>lastHeartbeatTime = 0, messagingReady = True\<rparr>
      = (False, [], \<lparr>lastHeartbeatTime = 0, messagingReady = True\<rparr>)
   \<and> sendHeartbeat_C3DS
        \<lparr>wifi_connected = True, signature_b64 = [], http_begin_ok = True, http_response = 200,
         millis_after_send = 20000\<rparr>
        \<lparr>lastHeartbeatTime = 0, messagingReady = True\<rparr>
      = (False, [], \<lparr>lastHeartbeatTime = 0, messagingReady = True\<rparr>)
   \<and> isHeartbeatDue 20000 \<lparr>lastHeartbeatTime = 0, messagingReady = True\<rparr>
   \<and> snd (snd (sendHeartbeat_P256
        \<lparr>wifi_connected = True, signature_b64 = ''MEQCIA=='', http_begin_ok = True,
         http_response = 500, millis_after_send = 20000\<rparr>
        \<lparr>lastHeartbeatTime = 0, messagingReady = True\<rparr>))
      = \<lparr>lastHeartbeatTime = 20000, messagingReady = True\<rparr>"
  by (simp add: signMessage_def sendHeartbeat_P256_def sendHeartbeat_C3DS_def sendHeartbeat_def
        sendHTTPRequest_P256_def handleHTTPServerError_def
        isHeartbeatDue_def HEARTBEAT_INTERVAL_def)

text \<open>
  Claim C5 names the members of the data object \<open>signal_strength\<close>, \<open>distance_cm\<close>
  and \<open>duration_seconds\<close>. The payloads have no members of these names.
\<close>

theorem payload_fields_differ:
  "data_member_names (createMessagePayload_P256
       \<lparr>DEVICE_ID = ''dev'', current_timestamp = ''1970-01-01T00:00:00Z'', uptime_seconds = 60,
        wifi_rssi = -50, free_heap = 40000\<rparr> HEARTBEAT 0 0 [])
     \<noteq> [''status'', ''uptime'', ''signal_strength'', ''free_memory'']
   \<and> ''signal_strength'' \<notin> set (data_member_names (createMessagePayload_P256
       \<lparr>DEVICE_ID = ''dev'', current_timestamp = ''1970-01-01T00:00:00Z'', uptime_seconds = 60,
        wifi_rssi = -50, free_heap = 40000\<rparr> HEARTBEAT 0 0 []))
   \<and> ''distance_cm'' \<notin> set (data_member_names (createMessagePayload_P256
       \<lparr>DEVICE_ID = ''dev'', current_timestamp = ''1970-01-01T00:00:00Z'', uptime_seconds = 60,
        wifi_rssi = -50, free_heap = 40000\<rparr> ALERT 24 3 ''1970-01-01T00:00:00Z''))
   \<and> ''duration_seconds'' \<notin> set (data_member_names (createMessagePayload_P256
       \<lparr>DEVICE_ID = ''dev'', current_timestamp = ''1970-01-01T00:00:00Z'', uptime_seconds = 60,
        wifi_rssi = -50, free_heap = 40000\<rparr> ALERT 24 3 ''1970-01-01T00:00:00Z''))"
  by (simp add: createMessagePayload_P256_def data_member_names_def)

text \<open>
  Claim C5, amended. Every payload has the members \<open>device_id\<close>, \<open>timestamp\<close>,
  \<open>message_type\<close>, \<open>data\<close>, in this order. The data object of a heartbeat has the
  members \<open>status\<close>, \<open>uptime\<close>, \<open>wifi_rssi\<close>, \<open>free_memory\<close>; that of an
  alert of the ultrasonic template has \<open>event\<close>, \<open>sensor_type\<close>,
  \<open>detected_distance_cm\<close>, \<open>detection_duration_seconds\<close>, \<open>first_detected_at\<close>,
  \<open>confidence\<close>; that of an alert of the button template has \<open>event\<close>,
  \<open>sensor_type\<close>, \<open>confidence\<close>; each in this order, whatever the values.
\<close>

theorem payload_fields:
  "member_names (createMessagePayload_P256 inp type distance durationSeconds firstDetectedTimestamp)
     = [''device_id'', ''timestamp'', ''message_type'', ''data'']
   \<and> member_names (createMessagePayload_C3DS inp type)
     = [''device_id'', ''timestamp'', ''message_type'', ''data'']
   \<and> data_member_names (createMessagePayload_P256 inp HEARTBEAT distance durationSeconds firstDetectedTimestamp)
     = [''status'', ''uptime'', ''wifi_rssi'', ''free_memory'']
   \<and> data_member_names (createMessagePayload_C3DS inp HEARTBEAT)
     = [''status'', ''uptime'', ''wifi_rssi'', ''free_memory'']
   \<and> data_member_names (createMessagePayload_P256 inp ALERT distance durationSeconds firstDetectedTimestamp)
     = [''event'', ''sensor_type'', ''detected_distance_cm'', ''detection_duration_seconds'',
        ''first_detected_at'', ''confidence'']
   \<and> data_member_names (createMessagePayload_C3DS inp ALERT)
     = [''event'', ''sensor_type'', ''confidence'']"
  by (cases type) (simp_all add: createMessagePayload_P256_def createMessagePayload_C3DS_def
        data_member_names_def member_names_def)

section \<open>Verification: Base64\<close>

lemma byte_not_mask2: "(0xfc :: u8) = NOT (mask 2)"
  by (simp add: mask_eq_exp_minus_1)

lemma byte_masks: "(0x03 :: u8) = mask 2" "(0x0f :: u8) = mask 4" "(0x3f :: u8) = mask 6"
  by (simp_all add: mask_eq_exp_minus_1)

lemma byte_not_masks: "(0xf0 :: u8) = NOT (mask 4)" "(0xc0 :: u8) = NOT (mask 6)"
  by (simp_all add: mask_eq_exp_minus_1)

lemma drop_and_not_mask: "drop_bit n (a AND NOT (mask n)) = drop_bit n (a :: 'a::len word)"
  by (rule bit_word_eqI) (auto simp: bit_simps dest: bit_imp_le_length)

lemma sextet0_unat: "unat (drop_bit 2 (a AND 0xfc :: u8)) = unat a div 4"
  unfolding byte_not_mask2 drop_and_not_mask by (simp add: drop_bit_eq_div unat_div)

lemma sextet1_lo_unat: "unat (drop_bit 4 (b AND 0xf0 :: u8)) = unat b div 16"
  unfolding byte_not_masks drop_and_not_mask by (simp add: drop_bit_eq_div unat_div)

lemma sextet2_lo_unat: "unat (drop_bit 6 (b AND 0xc0 :: u8)) = unat b div 64"
  unfolding byte_not_masks drop_and_not_mask by (simp add: drop_bit_eq_div unat_div)

lemma sextet3_unat: "unat (c AND 0x3f :: u8) = unat c mod 64"
  unfolding byte_masks by (simp flip: take_bit_eq_mask add: take_bit_eq_mod unat_mod)

lemma sextet1_hi_unat: "unat (push_bit 4 (a AND 0x03 :: u8)) = (unat a mod 4) * 16"
proof -
  have "unat (push_bit 4 (a AND 0x03 :: u8)) = (unat (a mod 4) * 16) mod 256"
    unfolding byte_masks by (simp flip: take_bit_eq_mask add: take_bit_eq_mod push_bit_eq_mult unat_word_ariths)
  also have "unat (a mod 4) = unat a mod 4" by (simp add: unat_mod)
  finally show ?thesis by simp
qed

lemma sextet2_hi_unat: "unat (push_bit 2 (a AND 0x0f :: u8)) = (unat a mod 16) * 4"
proof -
  have "unat (push_bit 2 (a AND 0x0f :: u8)) = (unat (a mod 16) * 4) mod 256"
    unfolding byte_masks by (simp flip: take_bit_eq_mask add: take_bit_eq_mod push_bit_eq_mult unat_word_ariths)
  also have "unat (a mod 16) = unat a mod 16" by (simp add: unat_mod)
  finally show ?thesis by simp
qed

lemma sextet1_unat: "unat (push_bit 4 (a AND 0x03) + drop_bit 4 (b AND 0xf0) :: u8) = (unat a mod 4) * 16 + unat b div 16"
proof -
  have "unat b < 256" using unsigned_less [of b, where 'a = nat] by simp
  then have "(unat a mod 4) * 16 + unat b div 16 < 256" by simp
  then show ?thesis unfolding unat_word_ariths(1) sextet1_hi_unat sextet1_lo_unat by simp
qed

lemma sextet2_unat: "unat (push_bit 2 (b AND 0x0f) + drop_bit 6 (c AND 0xc0) :: u8) = (unat b mod 16) * 4 + unat c div 64"
proof -
  have "unat c < 256" using unsigned_less [of c, where 'a = nat] by simp
  then have "(unat b mod 16) * 4 + unat c div 64 < 256" by simp
  then show ?thesis unfolding unat_word_ariths(1) sextet2_hi_unat sextet2_lo_unat by simp
qed

lemma base64_chars_rfc4648: "map rfc4648_value base64_chars = map Some [0..<64]"
  by (simp add: base64_chars_def rfc4648_value_def upt_rec)

lemma base64_chars_value: "n < 64 \<Longrightarrow> rfc4648_value (base64_chars ! n) = Some n"
proof -
  assume n: "n < 64"
  have l: "length base64_chars = 64" by (simp add: base64_chars_def)
  have "map rfc4648_value base64_chars ! n = map Some [0..<64] ! n" by (simp only: base64_chars_rfc4648)
  with n l show ?thesis by (simp del: upt_Suc)
qed

lemma regroup:
  "((A div 4 * 64 + (A mod 4 * 16 + B div 16)) * 64 + (B mod 16 * 4 + C div 64)) * 64 + C mod 64
     = A * 65536 + B * 256 + (C :: nat)"
proof -
  define qa ra qb rb qc rc
    where "qa = A div 4" and "ra = A mod 4" and "qb = B div 16" and "rb = B mod 16"
      and "qc = C div 64" and "rc = C mod 64"
  have A: "A = qa * 4 + ra" and B: "B = qb * 16 + rb" and C: "C = qc * 64 + rc"
    by (simp_all add: qa_def ra_def qb_def rb_def qc_def rc_def)
  have "((A div 4 * 64 + (A mod 4 * 16 + B div 16)) * 64 + (B mod 16 * 4 + C div 64)) * 64 + C mod 64
      = ((qa * 64 + (ra * 16 + qb)) * 64 + (rb * 4 + qc)) * 64 + rc"
    by (simp only: qa_def ra_def qb_def rb_def qc_def rc_def)
  also have "\<dots> = (qa * 4 + ra) * 65536 + (qb * 16 + rb) * 256 + (qc * 64 + rc)"
    by (simp add: algebra_simps)
  also have "\<dots> = A * 65536 + B * 256 + C"
    by (simp only: A [symmetric] B [symmetric] C [symmetric])
  finally show ?thesis .
qed

lemma group_roundtrip:
  "rfc4648_group (unat a div 4) ((unat a mod 4) * 16 + unat b div 16)
      ((unat b mod 16) * 4 + unat c div 64) (unat c mod 64) = [a, b, c :: u8]"
proof -
  let ?n = "((unat a div 4 * 64 + ((unat a mod 4) * 16 + unat b div 16)) * 64
             + ((unat b mod 16) * 4 + unat c div 64)) * 64 + unat c mod 64"
  have n: "?n = unat a * 65536 + unat b * 256 + unat c"
    by (rule regroup)
  have bb: "unat b < 256" "unat c < 256"
    using unsigned_less [of b, where 'a = nat] unsigned_less [of c, where 'a = nat] by simp_all
  have d1: "?n div 65536 = unat a" unfolding n using bb by simp
  have d2: "?n div 256 = unat a * 256 + unat b" unfolding n using bb by simp
  have "(of_nat (?n div 65536) :: u8) = a" unfolding d1 by simp
  moreover have "(of_nat (?n div 256) :: u8) = of_nat (unat b)"
    unfolding d2 by (subst word_of_nat_eq_iff) (simp add: take_bit_eq_mod)
  moreover have "(of_nat ?n :: u8) = of_nat (unat c)"
  proof -
    have e: "unat a * 65536 + unat b * 256 + unat c = unat c + (unat a * 256 + unat b) * 256"
      by simp
    have "(unat a * 65536 + unat b * 256 + unat c) mod 256 = unat c mod 256"
      by (subst e) (rule mod_mult_self1)
    then show ?thesis
      unfolding n by (subst word_of_nat_eq_iff) (simp only: take_bit_eq_mod, simp)
  qed
  ultimately show ?thesis by (simp add: rfc4648_group_def Let_def)
qed

lemma three_cases:
  assumes "length a3 = 3"
  obtains x y z where "a3 = [x :: u8, y, z]"
  using assms by (cases a3; cases "tl a3"; cases "tl (tl a3)") auto

text \<open>
  The loop computes \<open>base64_groups\<close>, whatever the initial contents of
  \<open>char_array_3\<close>.
\<close>

lemma loop_groups:
  "length a3 = 3 \<Longrightarrow> base64_tail (base64_loop data 0 a3 enc) = enc @ base64_groups data"
proof (induction data arbitrary: a3 enc rule: base64_groups.induct)
  case (1 a b c rest)
  from "1.prems" obtain x y z where a3: "a3 = [x, y, z]" by (rule three_cases)
  have "base64_loop (a # b # c # rest) 0 a3 enc
          = base64_loop rest 0 [a, b, c] (enc @ base64_emit (char_array_4 [a, b, c]))"
    by (simp add: a3 Let_def)
  with "1.IH" [of "[a, b, c]"] show ?case by simp
next
  case (2 a b)
  from "2.prems" obtain x y z where a3: "a3 = [x, y, z]" by (rule three_cases)
  show ?case by (simp add: a3 Let_def base64_tail_def upt_rec numeral_2_eq_2 numeral_3_eq_3)
next
  case (3 a)
  from "3.prems" obtain x y z where a3: "a3 = [x, y, z]" by (rule three_cases)
  show ?case by (simp add: a3 Let_def base64_tail_def upt_rec numeral_2_eq_2 numeral_3_eq_3)
next
  case 4
  show ?case by (simp add: base64_tail_def)
qed

lemma base64Encode_groups: "base64Encode data = base64_groups data"
  by (simp add: base64Encode_def loop_groups)

lemma nth_of_three: "[x, y, z] ! 0 = x" "[x, y, z] ! 1 = y" "[x, y, z] ! 2 = z"
  by simp_all

lemma sextets:
  "map unat (char_array_4 [a, b, c]) =
     [unat a div 4, (unat a mod 4) * 16 + unat b div 16,
      (unat b mod 16) * 4 + unat c div 64, unat c mod 64]"
  by (simp only: char_array_4_def nth_of_three list.map sextet0_unat sextet1_unat sextet2_unat sextet3_unat)

lemma sextets_bound: "v \<in> set (char_array_4 [a, b, c]) \<Longrightarrow> unat v < 64"
proof -
  assume "v \<in> set (char_array_4 [a, b, c])"
  then have "unat v \<in> set (map unat (char_array_4 [a, b, c]))" by simp
  moreover have "unat a < 256" "unat b < 256" "unat c < 256"
    using unsigned_less [of a, where 'a = nat] unsigned_less [of b, where 'a = nat]
      unsigned_less [of c, where 'a = nat] by simp_all
  ultimately show ?thesis unfolding sextets by auto
qed

lemma value_eq_sign: "rfc4648_value CHR ''='' = None"
  by (simp add: rfc4648_value_def)

lemma emit4:
  obtains c0 c1 c2 c3 where
    "base64_emit (char_array_4 [a, b, c]) = [c0, c1, c2, c3]"
    "rfc4648_value c0 = Some (unat a div 4)"
    "rfc4648_value c1 = Some ((unat a mod 4) * 16 + unat b div 16)"
    "rfc4648_value c2 = Some ((unat b mod 16) * 4 + unat c div 64)"
    "rfc4648_value c3 = Some (unat c mod 64)"
proof -
  obtain v0 v1 v2 v3 where v: "char_array_4 [a, b, c] = [v0, v1, v2, v3]"
    by (simp add: char_array_4_def)
  with sextets_bound [of _ a b c]
  have b: "unat v0 < 64" "unat v1 < 64" "unat v2 < 64" "unat v3 < 64" by simp_all
  from sextets [of a b c] v
  have u: "unat v0 = unat a div 4" "unat v1 = (unat a mod 4) * 16 + unat b div 16"
    "unat v2 = (unat b mod 16) * 4 + unat c div 64" "unat v3 = unat c mod 64"
    by simp_all
  show ?thesis
  proof (rule that)
    show "base64_emit (char_array_4 [a, b, c])
            = [base64_chars ! unat v0, base64_chars ! unat v1, base64_chars ! unat v2,
               base64_chars ! unat v3]"
      by (simp add: base64_emit_def v)
  qed (use base64_chars_value b u in simp_all)
qed

lemma decode_group:
  assumes "rfc4648_value c0 = Some x" "rfc4648_value c1 = Some y"
    "rfc4648_value c2 = Some z" "rfc4648_value c3 = Some w"
  shows "rfc4648_decode (c0 # c1 # c2 # c3 # rest)
           = map_option (\<lambda>bytes. rfc4648_group x y z w @ bytes) (rfc4648_decode rest)"
proof (cases rest)
  case Nil
  from assms have "c2 \<noteq> CHR ''=''" "c3 \<noteq> CHR ''=''" using value_eq_sign by auto
  with Nil assms show ?thesis by simp
next
  case (Cons r rs)
  with assms show ?thesis by (cases "rfc4648_decode (r # rs)") simp_all
qed

lemma decode_groups: "rfc4648_decode (base64_groups data) = Some data"
proof (induction data rule: base64_groups.induct)
  case (1 a b c rest)
  obtain c0 c1 c2 c3 where e: "base64_emit (char_array_4 [a, b, c]) = [c0, c1, c2, c3]"
    and v: "rfc4648_value c0 = Some (unat a div 4)"
      "rfc4648_value c1 = Some ((unat a mod 4) * 16 + unat b div 16)"
      "rfc4648_value c2 = Some ((unat b mod 16) * 4 + unat c div 64)"
      "rfc4648_value c3 = Some (unat c mod 64)"
    by (rule emit4)
  show ?case
    by (simp add: e decode_group [OF v] "1.IH" group_roundtrip)
next
  case (2 a b)
  obtain c0 c1 c2 c3 where e: "base64_emit (char_array_4 [a, b, 0]) = [c0, c1, c2, c3]"
    and v: "rfc4648_value c0 = Some (unat a div 4)"
      "rfc4648_value c1 = Some ((unat a mod 4) * 16 + unat b div 16)"
      "rfc4648_value c2 = Some ((unat b mod 16) * 4 + unat (0 :: u8) div 64)"
    by (rule emit4)
  from v(3) have ne: "c2 \<noteq> CHR ''=''" using value_eq_sign by auto
  have e3: "base64_emit (take 3 (char_array_4 [a, b, 0])) = [c0, c1, c2]"
    using e by (simp add: base64_emit_def take_map [symmetric] del: take_map)
  have g: "rfc4648_group (unat a div 4) ((unat a mod 4) * 16 + unat b div 16)
             ((unat b mod 16) * 4 + unat (0 :: u8) div 64) (unat (0 :: u8) mod 64) = [a, b, 0]"
    by (rule group_roundtrip)
  show ?case using g by (simp add: e3 v ne)
next
  case (3 a)
  obtain c0 c1 c2 c3 where e: "base64_emit (char_array_4 [a, 0, 0]) = [c0, c1, c2, c3]"
    and v: "rfc4648_value c0 = Some (unat a div 4)"
      "rfc4648_value c1 = Some ((unat a mod 4) * 16 + unat (0 :: u8) div 16)"
    by (rule emit4)
  have e2: "base64_emit (take 2 (char_array_4 [a, 0, 0])) = [c0, c1]"
    using e by (simp add: base64_emit_def take_map [symmetric] del: take_map)
  have g: "rfc4648_group (unat a div 4) ((unat a mod 4) * 16 + unat (0 :: u8) div 16)
             ((unat (0 :: u8) mod 16) * 4 + unat (0 :: u8) div 64) (unat (0 :: u8) mod 64) = [a, 0, 0]"
    by (rule group_roundtrip)
  show ?case using g by (simp add: e2 v)
next
  case 4
  show ?case by simp
qed

lemma emit_alphabet:
  "ch \<in> set (base64_emit (char_array_4 [a, b, c])) \<Longrightarrow> ch \<in> set base64_chars"
proof -
  assume "ch \<in> set (base64_emit (char_array_4 [a, b, c]))"
  then obtain v where v: "v \<in> set (char_array_4 [a, b, c])" and ch: "ch = base64_chars ! unat v"
    by (auto simp: base64_emit_def)
  have "length base64_chars = 64" by (simp add: base64_chars_def)
  with sextets_bound [OF v] show ?thesis unfolding ch by (intro nth_mem) simp
qed

lemma emit_length: "length (base64_emit (char_array_4 a3)) = 4"
  by (simp add: base64_emit_def char_array_4_def)

lemma groups_length: "length (base64_groups data) = 4 * ((length data + 2) div 3)"
proof (induction data rule: base64_groups.induct)
  case (1 a b c rest)
  have "(length (a # b # c # rest) + 2) div 3 = Suc ((length rest + 2) div 3)" by simp
  with "1.IH" show ?case by (simp only: base64_groups.simps length_append emit_length) simp
qed (simp_all add: base64_emit_def char_array_4_def)

lemma pad_not_alphabet: "CHR ''='' \<notin> set base64_chars"
  by (simp add: base64_chars_def)

lemma emit_sextets:
  "base64_emit (char_array_4 [a, b, c]) =
     map (\<lambda>n. base64_chars ! n)
       [unat a div 4, (unat a mod 4) * 16 + unat b div 16,
        (unat b mod 16) * 4 + unat c div 64, unat c mod 64]"
proof -
  have "base64_emit (char_array_4 [a, b, c])
          = map (\<lambda>n. base64_chars ! n) (map unat (char_array_4 [a, b, c]))"
    by (simp add: base64_emit_def)
  then show ?thesis by (simp only: sextets)
qed

text \<open>
  Claim C9 says that inputs of 0, 1 and 2 bytes give 4 characters with \<open>==\<close>,
  \<open>=\<close> and no padding. The input of 0 bytes gives the empty string, the input of 1
  byte ends in \<open>==\<close> and the input of 2 bytes in \<open>=\<close>, as RFC 4648 has it.
\<close>

theorem base64Encode_zero_one_two:
  "base64Encode [] = [] \<and> length (base64Encode []) \<noteq> 4
   \<and> base64Encode [0x66] = ''Zg==''
   \<and> base64Encode [0x66, 0x6f] = ''Zm8=''"
proof -
  have "base64_emit (take 2 (char_array_4 [0x66, 0, 0])) = take 2 (base64_emit (char_array_4 [0x66, 0, 0]))"
    "base64_emit (take 3 (char_array_4 [0x66, 0x6f, 0])) = take 3 (base64_emit (char_array_4 [0x66, 0x6f, 0]))"
    by (simp_all add: base64_emit_def take_map)
  then show ?thesis
    by (simp add: base64Encode_groups emit_sextets base64_chars_def)
qed

text \<open>
  Claim C9, amended. The table of \<open>base64Encode\<close> is the alphabet of RFC 4648, and
  \<open>=\<close> is not in it. The input of 0 bytes gives the empty string; inputs of 1, 2 and
  3 bytes give 4 characters: two of the alphabet and \<open>==\<close>, three of the alphabet and
  \<open>=\<close>, four of the alphabet. For every input the output has
  \<open>4 * ceil(length / 3)\<close> characters, and the reference decoder gives the input back.
\<close>

theorem base64Encode_padding_roundtrip:
  "map rfc4648_value base64_chars = map Some [0..<64]
   \<and> base64Encode [] = []
   \<and> (\<exists>c0 c1. base64Encode [a] = [c0, c1, CHR ''='', CHR ''='']
          \<and> c0 \<in> set base64_chars \<and> c1 \<in> set base64_chars)
   \<and> (\<exists>c0 c1 c2. base64Encode [a, b] = [c0, c1, c2, CHR ''='']
          \<and> c0 \<in> set base64_chars \<and> c1 \<in> set base64_chars \<and> c2 \<in> set base64_chars)
   \<and> (\<exists>c0 c1 c2 c3. base64Encode [a, b, c] = [c0, c1, c2, c3]
          \<and> c0 \<in> set base64_chars \<and> c1 \<in> set base64_chars \<and> c2 \<in> set base64_chars
          \<and> c3 \<in> set base64_chars)
   \<and> CHR ''='' \<notin> set base64_chars
   \<and> length (base64Encode data) = 4 * ((length data + 2) div 3)
   \<and> rfc4648_decode (base64Encode data) = Some data"
proof -
  have one: "\<exists>c0 c1. base64Encode [a] = [c0, c1, CHR ''='', CHR ''='']
          \<and> c0 \<in> set base64_chars \<and> c1 \<in> set base64_chars"
  proof -
    obtain c0 c1 c2 c3 where e: "base64_emit (char_array_4 [a, 0, 0]) = [c0, c1, c2, c3]"
      by (rule emit4)
    with emit_alphabet [of _ a 0 0] have "c0 \<in> set base64_chars" "c1 \<in> set base64_chars"
      by simp_all
    moreover have "base64_emit (take 2 (char_array_4 [a, 0, 0])) = [c0, c1]"
      using e by (simp add: base64_emit_def take_map [symmetric])
    ultimately show ?thesis by (simp add: base64Encode_groups)
  qed
  have two: "\<exists>c0 c1 c2. base64Encode [a, b] = [c0, c1, c2, CHR ''='']
          \<and> c0 \<in> set base64_chars \<and> c1 \<in> set base64_chars \<and> c2 \<in> set base64_chars"
  proof -
    obtain c0 c1 c2 c3 where e: "base64_emit (char_array_4 [a, b, 0]) = [c0, c1, c2, c3]"
      by (rule emit4)
    with emit_alphabet [of _ a b 0]
    have "c0 \<in> set base64_chars" "c1 \<in> set base64_chars" "c2 \<in> set base64_chars"
      by simp_all
    moreover have "base64_emit (take 3 (char_array_4 [a, b, 0])) = [c0, c1, c2]"
      using e by (simp add: base64_emit_def take_map [symmetric])
    ultimately show ?thesis by (simp add: base64Encode_groups)
  qed
  have three: "\<exists>c0 c1 c2 c3. base64Encode [a, b, c] = [c0, c1, c2, c3]
          \<and> c0 \<in> set base64_chars \<and> c1 \<in> set base64_chars \<and> c2 \<in> set base64_chars
          \<and> c3 \<in> set base64_chars"
  proof -
    obtain c0 c1 c2 c3 where e: "base64_emit (char_array_4 [a, b, c]) = [c0, c1, c2, c3]"
      by (rule emit4)
    with emit_alphabet [of _ a b c]
    have "c0 \<in> set base64_chars" "c1 \<in> set base64_chars" "c2 \<in> set base64_chars"
      "c3 \<in> set base64_chars"
      by simp_all
    with e show ?thesis by (simp add: base64Encode_groups)
  qed
  show ?thesis
    using one two three
    by (simp only: base64_chars_rfc4648 pad_not_alphabet base64Encode_groups groups_length decode_groups
          base64_groups.simps not_False_eq_True simp_thms)
qed

text \<open>
  End to end: when \<open>uECC_sign\<close> has produced a 64-byte signature, \<open>signMessage\<close>
  returns a non-empty string of a multiple of 4 characters, which decodes to the DER
  encoding of the signature. The empty string is returned for a signing failure only.
\<close>

lemma signMessage_end_to_end:
  assumes "length signature = 64"
  shows "\<exists>b64. signMessage True (Some signature) = Some b64
           \<and> b64 \<noteq> [] \<and> length b64 mod 4 = 0
           \<and> rfc4648_decode b64 = Some (der_encoding (take 32 signature) (drop 32 signature))"
proof -
  let ?out = "der_encoding (take 32 signature) (drop 32 signature)"
  from encode_refines [OF assms, of "replicate 72 0"] obtain der n
    where enc: "encodeSignatureToDER signature (replicate 72 0) = Some (der, n)"
      and w: "written (der, n) 72 ?out"
    by auto
  from w have tk: "take n der = ?out" by (auto simp: written_def)
  have "length ?out \<ge> 6" by (simp add: der_encoding_length)
  then have "length (base64_groups ?out) \<noteq> 0" "length (base64_groups ?out) mod 4 = 0"
    by (simp_all add: groups_length)
  then show ?thesis
    by (simp add: signMessage_def enc tk base64Encode_groups decode_groups)
qed

end
